theory Spec2Isabelle
  imports Main "HOL-Library.Multiset"
begin

section \<open>JavaScript values, errors and array helpers\<close>

text \<open>
  Strings are lists of 8-bit characters, each standing for one UTF-16 code unit in the
  range 0..255.  Values that the configuration can carry where the code expects a string
  are modelled by \<open>jsval\<close>; \<open>JObject\<close> is an object (or array) none of whose
  properties the analyzers read.
\<close>

datatype jsval = JUndefined | JNull | JBool bool | JNum int | JStr string | JObject

datatype js_error = TypeError

fun truthy :: "jsval \<Rightarrow> bool" where
  "truthy JUndefined = False"
| "truthy JNull = False"
| "truthy (JBool b) = b"
| "truthy (JNum n) = (n \<noteq> 0)"
| "truthy (JStr s) = (s \<noteq> [])"
| "truthy JObject = True"

text \<open>
  The property names every plain object inherits from \<open>Object.prototype\<close>.  Reading
  such a key from an object literal that has no own property of that name yields the
  inherited function (or the prototype object), which is truthy and is no array.
\<close>

definition objectPrototypeKeys :: "string list" where
  "objectPrototypeKeys =
     [''constructor'', ''__defineGetter__'', ''__defineSetter__'', ''hasOwnProperty'',
      ''__lookupGetter__'', ''__lookupSetter__'', ''isPrototypeOf'',
      ''propertyIsEnumerable'', ''toString'', ''valueOf'', ''__proto__'',
      ''toLocaleString'']"

text \<open>\<open>Array.prototype.some\<close> with a callback that may throw: stops at the first
  element for which the callback is true, and at the first throw.\<close>

fun Array_some :: "('a \<Rightarrow> js_error + bool) \<Rightarrow> 'a list \<Rightarrow> js_error + bool" where
  "Array_some f [] = Inr False"
| "Array_some f (x # xs) =
     (case f x of
        Inl e \<Rightarrow> Inl e
      | Inr b \<Rightarrow> if b then Inr True else Array_some f xs)"

text \<open>\<open>Array.prototype.filter\<close> with a callback that may throw: the callback runs on
  every element, in order.\<close>

fun Array_filter :: "('a \<Rightarrow> js_error + bool) \<Rightarrow> 'a list \<Rightarrow> js_error + 'a list" where
  "Array_filter f [] = Inr []"
| "Array_filter f (x # xs) =
     (case f x of
        Inl e \<Rightarrow> Inl e
      | Inr b \<Rightarrow>
          (case Array_filter f xs of
             Inl e \<Rightarrow> Inl e
           | Inr ys \<Rightarrow> Inr (if b then x # ys else ys)))"

text \<open>\<open>Array.prototype.map\<close> with a callback that may throw.\<close>

fun Array_map :: "('a \<Rightarrow> js_error + 'b) \<Rightarrow> 'a list \<Rightarrow> js_error + 'b list" where
  "Array_map f [] = Inr []"
| "Array_map f (x # xs) =
     (case f x of
        Inl e \<Rightarrow> Inl e
      | Inr y \<Rightarrow>
          (case Array_map f xs of
             Inl e \<Rightarrow> Inl e
           | Inr ys \<Rightarrow> Inr (y # ys)))"

text \<open>\<open>[...new Set(xs)]\<close>: the distinct elements in the order of their first
  occurrence.\<close>

definition Set_spread :: "'a list \<Rightarrow> 'a list" where
  "Set_spread xs = fold (\<lambda>x acc. if x \<in> set acc then acc else acc @ [x]) xs []"

section \<open>Strings\<close>

text \<open>\<open>s.split(c)\<close> for a one-character separator; the empty string splits into one
  empty piece.\<close>

fun String_split :: "char \<Rightarrow> string \<Rightarrow> string list" where
  "String_split c [] = [[]]"
| "String_split c (x # xs) =
     (if x = c then [] # String_split c xs
      else (case String_split c xs of
              [] \<Rightarrow> [[x]]
            | w # ws \<Rightarrow> (x # w) # ws))"

text \<open>\<open>xs.join(sep)\<close>.\<close>

fun Array_join :: "string \<Rightarrow> string list \<Rightarrow> string" where
  "Array_join sep [] = []"
| "Array_join sep [x] = x"
| "Array_join sep (x # y # ys) = x @ sep @ Array_join sep (y # ys)"

text \<open>The white space of \<open>String.prototype.trim\<close> and of the class \<open>\s\<close> (tab, line
  feed, vertical tab, form feed, carriage return, space, no-break space), the line
  terminators that \<open>.\<close> excludes and after which a multiline \<open>^\<close> matches, and the
  word characters of \<open>\w\<close> and \<open>\b\<close>.\<close>

definition isSpace :: "char \<Rightarrow> bool" where
  "isSpace c \<longleftrightarrow> c \<in> set [CHR 0x09, CHR 0x0A, CHR 0x0B, CHR 0x0C, CHR 0x0D, CHR '' '', CHR 0xA0]"

definition isLineTerminator :: "char \<Rightarrow> bool" where
  "isLineTerminator c \<longleftrightarrow> c = CHR 0x0A \<or> c = CHR 0x0D"

definition isWordChar :: "char \<Rightarrow> bool" where
  "isWordChar c \<longleftrightarrow>
     c \<in> set ''abcdefghijklmnopqrstuvwxyzABCDEFGHIJKLMNOPQRSTUVWXYZ0123456789_''"

definition String_trim :: "string \<Rightarrow> string" where
  "String_trim s = rev (dropWhile isSpace (rev (dropWhile isSpace s)))"

definition startsWith :: "string \<Rightarrow> string \<Rightarrow> bool" where
  "startsWith s w \<longleftrightarrow> take (length w) s = w"

text \<open>Case conversion of the ASCII letters.  \<open>toLowerCase\<close> also maps the capital
  letters of the range 0xC0..0xDE, to characters outside ASCII again; its results are only
  compared with ASCII extension tables below, so these are left as they are.\<close>

definition toLowerCase :: "string \<Rightarrow> string" where
  "toLowerCase s =
     map (\<lambda>c. case map_of (zip ''ABCDEFGHIJKLMNOPQRSTUVWXYZ'' ''abcdefghijklmnopqrstuvwxyz'') c of
                 Some l \<Rightarrow> l | None \<Rightarrow> c) s"

definition toUpperASCII :: "char \<Rightarrow> char" where
  "toUpperASCII c =
     (case map_of (zip ''abcdefghijklmnopqrstuvwxyz'' ''ABCDEFGHIJKLMNOPQRSTUVWXYZ'') c of
        Some u \<Rightarrow> u | None \<Rightarrow> c)"

text \<open>The decimal numeral that a template literal prints for a natural number.\<close>

fun decimal :: "nat \<Rightarrow> string" where
  "decimal n =
     (if n < 10 then [''0123456789'' ! n]
      else decimal (n div 10) @ [''0123456789'' ! (n mod 10)])"

declare decimal.simps [simp del]

text \<open>
  \<open>path.extname\<close> of Node (POSIX flavour): the extension of the last path segment,
  trailing slashes apart, from its last dot on; empty when that segment has no dot, when
  its only dot is its first character, and for the segment \<open>..\<close>.
\<close>

definition basename :: "string \<Rightarrow> string" where
  "basename p =
     (let q = rev (dropWhile (\<lambda>c. c = CHR ''/'') (rev p))
      in rev (takeWhile (\<lambda>c. c \<noteq> CHR ''/'') (rev q)))"

definition extname :: "string \<Rightarrow> string" where
  "extname p =
     (let b = basename p;
          ext = rev (takeWhile (\<lambda>c. c \<noteq> CHR ''.'') (rev b));
          stem = take (length b - length ext - 1) b
      in if CHR ''.'' \<notin> set b \<or> stem = [] \<or> b = ''..'' then [] else CHR ''.'' # ext)"

section \<open>Regular expressions\<close>

text \<open>
  The fragment of JavaScript regular expressions the analyzers use.  Quantifiers apply to
  single-character classes only, as in every pattern of the sources.  \<open>LitI\<close> and
  \<open>LitAltI\<close> are literals under the flag \<open>i\<close>; \<open>LitAlt\<close> is an alternation of
  literals, tried from left to right.
\<close>

datatype regex =
    Lit string
  | LitI string
  | LitAlt "string list"
  | LitAltI "string list"
  | Cls "char \<Rightarrow> bool"
  | Star "char \<Rightarrow> bool"
  | Plus "char \<Rightarrow> bool"
  | PlusLazy "char \<Rightarrow> bool"
  | Opt regex
  | Seq regex regex
  | WordBoundary
  | LineStart
  | InputStart
  | InputEnd

definition isWordAt :: "char option \<Rightarrow> bool" where
  "isWordAt c = (case c of None \<Rightarrow> False | Some x \<Rightarrow> isWordChar x)"

definition nextChar :: "string \<Rightarrow> char option" where
  "nextChar s = (case s of [] \<Rightarrow> None | c # _ \<Rightarrow> Some c)"

text \<open>The character before the position reached after \<open>n\<close> characters of \<open>s\<close>, when
  \<open>prev\<close> is the character before \<open>s\<close>.\<close>

definition prevAt :: "char option \<Rightarrow> string \<Rightarrow> nat \<Rightarrow> char option" where
  "prevAt prev s n = (if n = 0 then prev else nextChar (drop (n - 1) s))"

definition litMatches :: "string \<Rightarrow> string \<Rightarrow> bool" where
  "litMatches w s \<longleftrightarrow> take (length w) s = w"

definition litMatchesI :: "string \<Rightarrow> string \<Rightarrow> bool" where
  "litMatchesI w s \<longleftrightarrow> map toUpperASCII (take (length w) s) = map toUpperASCII w"

text \<open>
  \<open>lens r prev s\<close>: the lengths of the matches of \<open>r\<close> at the start of \<open>s\<close>, where
  \<open>prev\<close> is the character before \<open>s\<close> in the input, in the order in which the
  backtracking matcher tries them.  The match the engine reports at a position is the
  first one.
\<close>

fun lens :: "regex \<Rightarrow> char option \<Rightarrow> string \<Rightarrow> nat list" where
  "lens (Lit w) prev s = (if litMatches w s then [length w] else [])"
| "lens (LitI w) prev s = (if litMatchesI w s then [length w] else [])"
| "lens (LitAlt ws) prev s = map length (filter (\<lambda>w. litMatches w s) ws)"
| "lens (LitAltI ws) prev s = map length (filter (\<lambda>w. litMatchesI w s) ws)"
| "lens (Cls P) prev s = (case s of [] \<Rightarrow> [] | c # _ \<Rightarrow> if P c then [1] else [])"
| "lens (Star P) prev s = rev [0..<Suc (length (takeWhile P s))]"
| "lens (Plus P) prev s = rev [1..<Suc (length (takeWhile P s))]"
| "lens (PlusLazy P) prev s = [1..<Suc (length (takeWhile P s))]"
| "lens (Opt r) prev s = lens r prev s @ [0]"
| "lens (Seq a b) prev s =
     concat (map (\<lambda>n. map (\<lambda>m. n + m) (lens b (prevAt prev s n) (drop n s))) (lens a prev s))"
| "lens WordBoundary prev s = (if isWordAt prev \<noteq> isWordAt (nextChar s) then [0] else [])"
| "lens LineStart prev s =
     (case prev of None \<Rightarrow> [0] | Some c \<Rightarrow> if isLineTerminator c then [0] else [])"
| "lens InputStart prev s = (case prev of None \<Rightarrow> [0] | Some c \<Rightarrow> [])"
| "lens InputEnd prev s = (if s = [] then [0] else [])"

definition seqs :: "regex list \<Rightarrow> regex" where
  "seqs rs = foldr Seq rs (Lit [])"

text \<open>The leftmost match in \<open>s\<close>: its offset and its length.\<close>

fun search :: "regex \<Rightarrow> char option \<Rightarrow> string \<Rightarrow> (nat \<times> nat) option" where
  "search r prev [] = (case lens r prev [] of [] \<Rightarrow> None | n # _ \<Rightarrow> Some (0, n))"
| "search r prev (c # cs) =
     (case lens r prev (c # cs) of
        n # _ \<Rightarrow> Some (0, n)
      | [] \<Rightarrow> map_option (\<lambda>(i, n). (Suc i, n)) (search r (Some c) cs))"

text \<open>\<open>s.match(r)\<close> for a regular expression without the flag \<open>g\<close>: the leftmost match
  or \<open>null\<close>.  Such an expression keeps no state.\<close>

definition String_match :: "regex \<Rightarrow> string \<Rightarrow> (nat \<times> nat) option" where
  "String_match r s = search r None s"

text \<open>
  A regular expression object with the flag \<open>g\<close> carries the mutable property
  \<open>lastIndex\<close>.  \<open>RegExp_exec r s lastIndex\<close> is one call of \<open>exec\<close>: the match
  found from \<open>lastIndex\<close> on (index and length) and the new value of \<open>lastIndex\<close>, which
  is the end of the match, or 0 when there is none.
\<close>

definition RegExp_exec :: "regex \<Rightarrow> string \<Rightarrow> nat \<Rightarrow> (nat \<times> nat) option \<times> nat" where
  "RegExp_exec r s lastIndex =
     (if lastIndex > length s then (None, 0)
      else (case search r (prevAt None s lastIndex) (drop lastIndex s) of
              None \<Rightarrow> (None, 0)
            | Some (i, n) \<Rightarrow> (Some (lastIndex + i, n), lastIndex + i + n)))"

text \<open>
  \<open>s.match(r)\<close> for a regular expression with the flag \<open>g\<close>: sets \<open>lastIndex\<close> to 0
  and calls \<open>exec\<close> until it fails, stepping over an empty match.  The result is the list
  of the matches (index and length; \<open>null\<close> is the empty list here, as in
  \<open>s.match(r) || []\<close>) and the value \<open>lastIndex\<close> is left with.
\<close>

function matchLoop :: "regex \<Rightarrow> string \<Rightarrow> nat \<Rightarrow> (nat \<times> nat) list \<times> nat" where
  "matchLoop r s lastIndex =
     (case RegExp_exec r s lastIndex of
        (None, li) \<Rightarrow> ([], li)
      | (Some (i, n), li) \<Rightarrow>
          (let (ms, li') = matchLoop r s (if n = 0 then li + 1 else li)
           in ((i, n) # ms, li')))"
  by pat_completeness auto
termination
  by (relation "measure (\<lambda>(r, s, lastIndex). Suc (length s) - lastIndex)")
     (auto simp: RegExp_exec_def split: if_splits option.splits)

declare matchLoop.simps [simp del]

definition String_match_global :: "regex \<Rightarrow> string \<Rightarrow> nat \<Rightarrow> (nat \<times> nat) list \<times> nat" where
  "String_match_global r s lastIndex = matchLoop r s 0"

text \<open>
  \<open>s.split(r)\<close> for a separator that never matches the empty string: the pieces between
  the matches, which are looked for at every position from left to right.  \<open>cur\<close> holds
  the piece under construction, reversed.
\<close>

fun splitLoop :: "regex \<Rightarrow> char option \<Rightarrow> string \<Rightarrow> string \<Rightarrow> string list" where
  "splitLoop r prev cur [] = [rev cur]"
| "splitLoop r prev cur (c # cs) =
     (case lens r prev (c # cs) of
        Suc n # _ \<Rightarrow> rev cur # splitLoop r (prevAt prev (c # cs) (Suc n)) [] (drop n cs)
      | _ \<Rightarrow> splitLoop r (Some c) (c # cur) cs)"

definition String_split_regex :: "regex \<Rightarrow> string \<Rightarrow> string list" where
  "String_split_regex r s = splitLoop r None [] s"

section \<open>The records of the complexity report\<close>

text \<open>
  The objects \<open>analyzeComplexity\<close> builds.  Several of them share field names with each
  other and with the records of the risk analyzer further down; their selectors are
  written with the record name throughout.
\<close>

record Warning =
  type :: string
  severity :: string
  filename :: string
  message :: string

record LargeFile =
  filename :: string
  additions :: nat
  deletions :: nat
  message :: string

record ComplexFile =
  filename :: string
  complexity :: nat
  message :: string

record Smell =
  type :: string
  count :: nat
  message :: string

record CodeSmell = Smell +
  filename :: string

record LargestFile =
  filename :: string
  additions :: nat

record Stats =
  totalAdditions :: nat
  totalDeletions :: nat
  largestFile :: "LargestFile option"
  averageFileSize :: nat

record ComplexityEstimate =
  complexity :: nat
  maxNesting :: nat
  longLines :: nat

text \<open>The report.  Its \<open>details\<close> lines and its \<open>summary\<close> object are computed from these
  fields after the loop and are not modelled.\<close>

record ComplexityReport =
  warnings :: "Warning list"
  largeFiles :: "LargeFile list"
  complexFiles :: "ComplexFile list"
  codeSmells :: "CodeSmell list"
  stats :: Stats

text \<open>An entry of \<open>CODE_SMELL_PATTERNS\<close>.\<close>

record SmellRule =
  pattern :: regex
  type :: string
  message :: string

section \<open>The glob matcher\<close>

text \<open>
  \<open>minimatch\<close> is the third-party library both analyzers import; its matching of a
  path against a pattern string is the parameter \<open>glob\<close> of everything below.  Its entry
  point first asserts that the pattern is valid: a pattern that is no string, or one
  longer than 64 KiB, throws a \<open>TypeError\<close> before any matching happens.
\<close>

definition MAX_PATTERN_LENGTH :: nat where
  "MAX_PATTERN_LENGTH = 1024 * 64"

definition minimatch :: "(string \<Rightarrow> string \<Rightarrow> bool) \<Rightarrow> string \<Rightarrow> jsval \<Rightarrow> js_error + bool" where
  "minimatch glob p pat =
     (case pat of
        JStr s \<Rightarrow> if length s > MAX_PATTERN_LENGTH then Inl TypeError else Inr (glob p s)
      | _ \<Rightarrow> Inl TypeError)"

definition validPattern :: "jsval \<Rightarrow> bool" where
  "validPattern pat = (case pat of JStr s \<Rightarrow> length s \<le> MAX_PATTERN_LENGTH | _ \<Rightarrow> False)"

text \<open>
  Modelled from the spec: the Glob Matcher of section 4.1, whose code (the library) is not
  part of the sources.  \<open>**\<close> as a whole pattern segment matches zero or more path
  segments; \<open>*\<close> matches zero or more characters within one segment; every other
  character matches itself, case-sensitively.  The theorems below hold for every \<open>glob\<close>;
  this matcher only instantiates them on concrete inputs.
\<close>

fun globSegment :: "string \<Rightarrow> string \<Rightarrow> bool" where
  "globSegment [] s = (s = [])"
| "globSegment (c # p) [] = (c = CHR ''*'' \<and> globSegment p [])"
| "globSegment (c # p) (d # s) =
     (if c = CHR ''*'' then globSegment p (d # s) \<or> globSegment (c # p) s
      else c = d \<and> globSegment p s)"

fun globSegments :: "string list \<Rightarrow> string list \<Rightarrow> bool" where
  "globSegments [] ss = (ss = [])"
| "globSegments (p # ps) [] = (p = ''**'' \<and> globSegments ps [])"
| "globSegments (p # ps) (s # ss) =
     (if p = ''**'' then globSegments ps (s # ss) \<or> globSegments (p # ps) ss
      else globSegment p s \<and> globSegments ps ss)"

definition matches :: "string \<Rightarrow> string \<Rightarrow> bool" where
  "matches fname pat = globSegments (String_split CHR ''/'' pat) (String_split CHR ''/'' fname)"















section \<open>Risk analyzer (src/analyzers/risk.js)\<close>

record RiskRule =
  pattern :: jsval
  category :: string
  severity :: string
  message :: string

definition rule :: "string \<Rightarrow> string \<Rightarrow> string \<Rightarrow> string \<Rightarrow> RiskRule" where
  "rule p c s m = \<lparr>pattern = JStr p, category = c, severity = s, message = m\<rparr>"

definition DEFAULT_RISK_PATTERNS :: "RiskRule list" where
  "DEFAULT_RISK_PATTERNS =
    [rule ''**/.env*'' ''security'' ''high'' ''Environment configuration file'',
     rule ''**/secrets*'' ''security'' ''high'' ''Secrets file'',
     rule ''**/*credentials*'' ''security'' ''high'' ''Credentials file'',
     rule ''**/*password*'' ''security'' ''high'' ''Password-related file'',
     rule ''**/*.pem'' ''security'' ''high'' ''Private key file'',
     rule ''**/*.key'' ''security'' ''high'' ''Key file'',
     rule ''**/auth/**'' ''security'' ''high'' ''Authentication code'',
     rule ''**/security/**'' ''security'' ''high'' ''Security module'',
     rule ''**/migrations/**'' ''database'' ''high'' ''Database migration'',
     rule ''**/migrate/**'' ''database'' ''high'' ''Database migration'',
     rule ''**/*.sql'' ''database'' ''medium'' ''SQL file'',
     rule ''**/schema*'' ''database'' ''high'' ''Database schema'',
     rule ''**/config/**'' ''config'' ''medium'' ''Configuration file'',
     rule ''**/*.config.js'' ''config'' ''medium'' ''Configuration file'',
     rule ''**/*.config.ts'' ''config'' ''medium'' ''Configuration file'',
     rule ''**/settings.*'' ''config'' ''medium'' ''Settings file'',
     rule ''**/docker-compose*'' ''config'' ''medium'' ''Docker Compose configuration'',
     rule ''**/Dockerfile*'' ''config'' ''medium'' ''Dockerfile'',
     rule ''**/nginx*'' ''config'' ''medium'' ''Nginx configuration'',
     rule ''**/.github/workflows/**'' ''ci'' ''medium'' ''CI/CD workflow'',
     rule ''**/*.tf'' ''infrastructure'' ''high'' ''Terraform configuration'',
     rule ''**/*.tfvars'' ''infrastructure'' ''high'' ''Terraform variables'',
     rule ''**/cloudformation/**'' ''infrastructure'' ''high'' ''CloudFormation template'',
     rule ''**/k8s/**'' ''infrastructure'' ''high'' ''Kubernetes configuration'',
     rule ''**/kubernetes/**'' ''infrastructure'' ''high'' ''Kubernetes configuration'',
     rule ''**/helm/**'' ''infrastructure'' ''high'' ''Helm chart'',
     rule ''**/package.json'' ''dependencies'' ''medium'' ''Node.js dependencies'',
     rule ''**/package-lock.json'' ''dependencies'' ''low'' ''Node.js lockfile'',
     rule ''**/yarn.lock'' ''dependencies'' ''low'' ''Yarn lockfile'',
     rule ''**/requirements.txt'' ''dependencies'' ''medium'' ''Python dependencies'',
     rule ''**/Gemfile'' ''dependencies'' ''medium'' ''Ruby dependencies'',
     rule ''**/go.mod'' ''dependencies'' ''medium'' ''Go dependencies'',
     rule ''**/Cargo.toml'' ''dependencies'' ''medium'' ''Rust dependencies'',
     rule ''**/routes/**'' ''api'' ''medium'' ''API routes'',
     rule ''**/api/**'' ''api'' ''medium'' ''API code'',
     rule ''**/middleware/**'' ''api'' ''medium'' ''Middleware'',
     rule ''**/webpack*'' ''build'' ''medium'' ''Webpack configuration'',
     rule ''**/rollup*'' ''build'' ''medium'' ''Rollup configuration'',
     rule ''**/vite.config*'' ''build'' ''medium'' ''Vite configuration'',
     rule ''**/.gitlab-ci*'' ''ci'' ''medium'' ''GitLab CI configuration'',
     rule ''**/Jenkinsfile'' ''ci'' ''medium'' ''Jenkins pipeline'']"

text \<open>
  One element of \<open>options.customPatterns\<close>.  \<open>CustomObject pat cat sev msg\<close> is an
  object with the properties \<open>pattern\<close>, \<open>category\<close>, \<open>severity\<close>, \<open>message\<close>
  (\<open>JUndefined\<close>, respectively \<open>None\<close>, where absent; the last three are strings, as
  documented).  \<open>CustomValue v\<close> is any other element: a bare string, a number, \<open>null\<close>,
  an object without these properties.
\<close>

datatype customPattern =
    CustomValue jsval
  | CustomObject jsval "string option" "string option" "string option"

text \<open>\<open>x || d\<close> for an optional string property: absent and empty are both falsy.\<close>

definition or_default :: "string option \<Rightarrow> string \<Rightarrow> string" where
  "or_default x d = (case x of None \<Rightarrow> d | Some s \<Rightarrow> if s \<noteq> [] then s else d)"

text \<open>The callback of \<open>customPatterns.map\<close>.  Reading a property of \<open>null\<close> or
  \<open>undefined\<close> throws.\<close>

fun toRiskRule :: "customPattern \<Rightarrow> js_error + RiskRule" where
  "toRiskRule (CustomValue JUndefined) = Inl TypeError"
| "toRiskRule (CustomValue JNull) = Inl TypeError"
| "toRiskRule (CustomValue v) =
     Inr \<lparr>pattern = v, category = ''custom'', severity = ''medium'',
          message = ''Custom risk pattern''\<rparr>"
| "toRiskRule (CustomObject pat cat sev msg) =
     Inr \<lparr>pattern = (if truthy pat then pat else JObject),
          category = or_default cat ''custom'',
          severity = or_default sev ''medium'',
          message = or_default msg ''Custom risk pattern''\<rparr>"

record ChangedFile =
  filename :: string
  status :: string
  additions :: nat
  deletions :: nat

record riskFile = ChangedFile +
  severity :: string
  categories :: "string list"
  messages :: "string list"
  patterns :: "jsval list"

record options =
  ignorePatterns :: "jsval list"

record riskOptions = options +
  customPatterns :: "customPattern list"

text \<open>
  The report under construction.  \<open>byCategory\<close> keeps its keys in insertion order.
  The \<open>details\<close> lines and the \<open>summary\<close> object are computed from these fields after
  the loop and are not modelled.
\<close>

record RiskReport =
  files :: "riskFile list"
  highRiskCount :: nat
  mediumRiskCount :: nat
  lowRiskCount :: nat
  byCategory :: "(string \<times> string list) list"

text \<open>\<open>severityOrder[s]\<close>: a rank for the three levels, \<open>undefined\<close> (or an inherited
  function, which compares like \<open>NaN\<close>) for every other key.\<close>

definition severityOrder :: "string \<Rightarrow> nat option" where
  "severityOrder s =
     (if s = ''high'' then Some 3 else if s = ''medium'' then Some 2
      else if s = ''low'' then Some 1 else None)"

text \<open>\<open>a > b\<close> on such lookups: false as soon as one side is no number.\<close>

definition js_gt :: "nat option \<Rightarrow> nat option \<Rightarrow> bool" where
  "js_gt a b = (case (a, b) of (Some x, Some y) \<Rightarrow> x > y | _ \<Rightarrow> False)"

definition getHighestSeverity :: "RiskRule list \<Rightarrow> string" where
  "getHighestSeverity ps =
     fold (\<lambda>p highest.
             if js_gt (severityOrder (RiskRule.severity p)) (severityOrder highest)
             then RiskRule.severity p else highest)
          ps ''low''"

text \<open>One round of the loop \<open>for (const category of categories)\<close>.  For a category that
  names an inherited property the lookup is truthy, no array is stored, and the call of
  \<open>push\<close> throws.\<close>

definition pushCategory ::
  "string \<Rightarrow> (string \<times> string list) list \<Rightarrow> string \<Rightarrow> js_error + (string \<times> string list) list" where
  "pushCategory fname byCat cat =
     (if cat \<in> set objectPrototypeKeys then Inl TypeError
      else (case map_of byCat cat of
              None \<Rightarrow> Inr (byCat @ [(cat, [fname])])
            | Some _ \<Rightarrow> Inr (map (\<lambda>(k, v). if k = cat then (k, v @ [fname]) else (k, v)) byCat)))"

fun pushCategories ::
  "string \<Rightarrow> string list \<Rightarrow> (string \<times> string list) list \<Rightarrow> js_error + (string \<times> string list) list" where
  "pushCategories fname [] byCat = Inr byCat"
| "pushCategories fname (cat # cats) byCat =
     (case pushCategory fname byCat cat of
        Inl e \<Rightarrow> Inl e
      | Inr byCat' \<Rightarrow> pushCategories fname cats byCat')"

definition mkRiskFile :: "ChangedFile \<Rightarrow> RiskRule list \<Rightarrow> riskFile" where
  "mkRiskFile file matchedPatterns =
     \<lparr>filename = filename file, status = status file,
      additions = additions file, deletions = deletions file,
      severity = getHighestSeverity matchedPatterns,
      categories = Set_spread (map category matchedPatterns),
      messages = map message matchedPatterns,
      patterns = map pattern matchedPatterns\<rparr>"

text \<open>The counters: \<open>high\<close>, else \<open>medium\<close>, else the low counter.\<close>

definition countSeverity :: "string \<Rightarrow> RiskReport \<Rightarrow> RiskReport" where
  "countSeverity sev result =
     (if sev = ''high'' then result\<lparr>highRiskCount := highRiskCount result + 1\<rparr>
      else if sev = ''medium'' then result\<lparr>mediumRiskCount := mediumRiskCount result + 1\<rparr>
      else result\<lparr>lowRiskCount := lowRiskCount result + 1\<rparr>)"

text \<open>The body of \<open>for (const file of files)\<close> in \<open>analyzeRisk\<close>.\<close>

definition analyzeRisk_file ::
  "(string \<Rightarrow> string \<Rightarrow> bool) \<Rightarrow> RiskRule list \<Rightarrow> jsval list \<Rightarrow> RiskReport \<Rightarrow> ChangedFile
     \<Rightarrow> js_error + RiskReport" where
  "analyzeRisk_file glob pats ignores result file =
     (case Array_some (minimatch glob (filename file)) ignores of
        Inl e \<Rightarrow> Inl e
      | Inr ignored \<Rightarrow>
          if ignored then Inr result
          else
            (case Array_filter (\<lambda>p. minimatch glob (filename file) (pattern p)) pats of
               Inl e \<Rightarrow> Inl e
             | Inr matchedPatterns \<Rightarrow>
                 if length matchedPatterns > 0 then
                   (let rf = mkRiskFile file matchedPatterns;
                        result1 = countSeverity (riskFile.severity rf)
                                    (result\<lparr>files := files result @ [rf]\<rparr>)
                    in case pushCategories (filename file) (categories rf) (byCategory result1) of
                         Inl e \<Rightarrow> Inl e
                       | Inr byCat \<Rightarrow> Inr (result1\<lparr>byCategory := byCat\<rparr>))
                 else Inr result))"

fun analyzeRisk_loop ::
  "(string \<Rightarrow> string \<Rightarrow> bool) \<Rightarrow> RiskRule list \<Rightarrow> jsval list \<Rightarrow> RiskReport \<Rightarrow> ChangedFile list
     \<Rightarrow> js_error + RiskReport" where
  "analyzeRisk_loop glob pats ignores result [] = Inr result"
| "analyzeRisk_loop glob pats ignores result (file # rest) =
     (case analyzeRisk_file glob pats ignores result file of
        Inl e \<Rightarrow> Inl e
      | Inr result' \<Rightarrow> analyzeRisk_loop glob pats ignores result' rest)"

definition emptyRiskReport :: RiskReport where
  "emptyRiskReport =
     \<lparr>files = [], highRiskCount = 0, mediumRiskCount = 0, lowRiskCount = 0, byCategory = []\<rparr>"

definition analyzeRisk ::
  "(string \<Rightarrow> string \<Rightarrow> bool) \<Rightarrow> ChangedFile list \<Rightarrow> riskOptions \<Rightarrow> js_error + RiskReport" where
  "analyzeRisk glob fs opts =
     (case Array_map toRiskRule (customPatterns opts) of
        Inl e \<Rightarrow> Inl e
      | Inr custom \<Rightarrow>
          analyzeRisk_loop glob (DEFAULT_RISK_PATTERNS @ custom) (ignorePatterns opts)
            emptyRiskReport fs)"

section \<open>Complexity analyzer (src/analyzers/complexity.js)\<close>

text \<open>The \<open>THRESHOLDS\<close> object.\<close>

definition maxFileLines :: nat where "maxFileLines = 500"
definition maxFunctionLines :: nat where "maxFunctionLines = 50"
definition maxNestingDepth :: nat where "maxNestingDepth = 4"
definition maxLineLength :: nat where "maxLineLength = 150"
definition maxCyclomaticComplexity :: nat where "maxCyclomaticComplexity = 10"
definition largeAdditions :: nat where "largeAdditions = 300"

text \<open>\<open>CONTROL_FLOW_PATTERNS\<close>: every pattern is an alternation of tokens between two
  word boundaries.\<close>

definition controlFlow :: "string list \<Rightarrow> regex" where
  "controlFlow tokens = Seq WordBoundary (Seq (LitAlt tokens) WordBoundary)"

definition CONTROL_FLOW_PATTERNS :: "(string \<times> regex) list" where
  "CONTROL_FLOW_PATTERNS =
     [(''js'', controlFlow [''if'', ''else'', ''for'', ''while'', ''do'', ''switch'', ''case'',
                            ''catch'', ''&&'', ''||'', ''?'']),
      (''py'', controlFlow [''if'', ''elif'', ''else'', ''for'', ''while'', ''try'', ''except'',
                            ''and'', ''or'']),
      (''java'', controlFlow [''if'', ''else'', ''for'', ''while'', ''do'', ''switch'', ''case'',
                              ''catch'', ''&&'', ''||'', ''?'']),
      (''go'', controlFlow [''if'', ''else'', ''for'', ''switch'', ''case'', ''select'']),
      (''rb'', controlFlow [''if'', ''elsif'', ''else'', ''unless'', ''case'', ''when'', ''while'',
                            ''until'', ''for'', ''rescue''])]"

definition isQuote :: "char \<Rightarrow> bool" where
  "isQuote c \<longleftrightarrow> c = CHR 0x27 \<or> c = CHR 0x22"

definition CODE_SMELL_PATTERNS :: "SmellRule list" where
  "CODE_SMELL_PATTERNS =
     [\<lparr>SmellRule.pattern = LitAltI [''TODO'', ''FIXME'', ''HACK'', ''XXX''],
       SmellRule.type = ''todo'', SmellRule.message = ''Contains TODO/FIXME comments''\<rparr>,
      \<lparr>SmellRule.pattern =
         Seq (Lit ''console.'') (LitAlt [''log'', ''debug'', ''info'', ''warn'', ''error'']),
       SmellRule.type = ''debug'', SmellRule.message = ''Contains console statements''\<rparr>,
      \<lparr>SmellRule.pattern = Seq (Lit ''debugger'') (Opt (Lit '';'')),
       SmellRule.type = ''debug'', SmellRule.message = ''Contains debugger statement''\<rparr>,
      \<lparr>SmellRule.pattern = seqs [Lit ''print'', Star isSpace, Lit ''(''],
       SmellRule.type = ''debug'', SmellRule.message = ''Contains print statements''\<rparr>,
      \<lparr>SmellRule.pattern = seqs [Lit ''.only'', Star isSpace, Lit ''(''],
       SmellRule.type = ''test'',
       SmellRule.message = ''Contains .only() in tests (will skip other tests)''\<rparr>,
      \<lparr>SmellRule.pattern = LitAlt [''eslint-disable'', ''@ts-ignore'', ''@ts-nocheck'', ''noqa''],
       SmellRule.type = ''lint'', SmellRule.message = ''Contains lint disable comments''\<rparr>,
      \<lparr>SmellRule.pattern =
         seqs [LitI ''password'', Star isSpace, Lit ''='', Star isSpace, Cls isQuote,
               Plus (\<lambda>c. \<not> isQuote c), Cls isQuote],
       SmellRule.type = ''security'', SmellRule.message = ''Possible hardcoded password''\<rparr>,
      \<lparr>SmellRule.pattern =
         seqs [LitI ''api'', Opt (Cls (\<lambda>c. c = CHR ''_'' \<or> c = CHR ''-'')), LitI ''key'',
               Star isSpace, Lit ''='', Star isSpace, Cls isQuote,
               Plus (\<lambda>c. \<not> isQuote c), Cls isQuote],
       SmellRule.type = ''security'', SmellRule.message = ''Possible hardcoded API key''\<rparr>,
      \<lparr>SmellRule.pattern =
         seqs [Plus isWordChar, Lit ''.forEach('', Plus (\<lambda>c. c \<noteq> CHR '')''), Lit '')'',
               Star isSpace, Lit ''{'', Plus (\<lambda>c. c \<noteq> CHR ''}''), Lit ''await''],
       SmellRule.type = ''async'',
       SmellRule.message = ''Async operation in forEach (use for...of instead)''\<rparr>]"

text \<open>
  The mutable state of the module: the \<open>lastIndex\<close> of each of its regular expression
  objects with the flag \<open>g\<close>, the five of \<open>CONTROL_FLOW_PATTERNS\<close> and the nine of
  \<open>CODE_SMELL_PATTERNS\<close>.
\<close>

datatype regexObject = ControlFlow string | SmellPattern nat

type_synonym regexState = "regexObject \<Rightarrow> nat"

subsection \<open>parseDiff\<close>

text \<open>The callback chain that extracts the added lines of one part.\<close>

definition addedLinesOf :: "string \<Rightarrow> string" where
  "addedLinesOf part =
     Array_join [CHR 0x0A]
       (map (\<lambda>line. drop 1 line)
          (filter (\<lambda>line. startsWith line ''+'' \<and> \<not> startsWith line ''+++'')
             (String_split (CHR 0x0A) part)))"

text \<open>\<open>/a\/(.+?) b\//\<close>; its group lies between the two literals, two characters
  after the start of the match and three before its end.\<close>

definition fileHeaderRegex :: regex where
  "fileHeaderRegex = seqs [Lit ''a/'', PlusLazy (\<lambda>c. \<not> isLineTerminator c), Lit '' b/'']"

definition fileMatch :: "string \<Rightarrow> string option" where
  "fileMatch part =
     (case String_match fileHeaderRegex part of
        None \<Rightarrow> None
      | Some (i, n) \<Rightarrow> Some (take (n - 5) (drop (i + 2) part)))"

text \<open>
  The body of \<open>for (const part of fileParts)\<close>; \<open>m\<close> is the object \<open>files\<close>.  The
  assignment \<open>files[filename] = ...\<close> stores an own property, except for the key
  \<open>__proto__\<close>, where assigning a string changes nothing.
\<close>

definition parseDiff_part :: "string \<Rightarrow> (string \<rightharpoonup> string) \<Rightarrow> (string \<rightharpoonup> string)" where
  "parseDiff_part part m =
     (if String_trim part = [] then m
      else (case fileMatch part of
              None \<Rightarrow> m
            | Some fname \<Rightarrow>
                if fname = ''__proto__'' then m
                else m(fname \<mapsto> addedLinesOf part)))"

definition diffSeparator :: regex where
  "diffSeparator = Seq LineStart (Lit ''diff --git'')"

definition parseDiff :: "jsval \<Rightarrow> (string \<rightharpoonup> string)" where
  "parseDiff diff =
     (case diff of
        JStr s \<Rightarrow>
          if s = [] then Map.empty
          else fold parseDiff_part (String_split_regex diffSeparator s) Map.empty
      | _ \<Rightarrow> Map.empty)"

subsection \<open>analyzeFileComplexity\<close>

definition langMap :: "(string \<times> string) list" where
  "langMap = [(''js'', ''js''), (''jsx'', ''js''), (''ts'', ''js''), (''tsx'', ''js''),
              (''py'', ''py''), (''java'', ''java''), (''go'', ''go''), (''rb'', ''rb'')]"

text \<open>
  \<open>langMap[ext] || 'js'\<close>.  For an extension that names an inherited property the
  lookup yields a function, for which the pattern table has no entry, so that the pattern
  of \<open>js\<close> is used and the comparison with \<open>'py'\<close> fails, as for \<open>js\<close>.
\<close>

definition langOf :: "string \<Rightarrow> string" where
  "langOf fname =
     (let ext = remove1 (CHR ''.'') (toLowerCase (extname fname))
      in case map_of langMap ext of Some l \<Rightarrow> l | None \<Rightarrow> ''js'')"

definition patternOf :: "string \<Rightarrow> regex" where
  "patternOf lang =
     (case map_of CONTROL_FLOW_PATTERNS lang of
        Some r \<Rightarrow> r
      | None \<Rightarrow> controlFlow [''if'', ''else'', ''for'', ''while'', ''do'', ''switch'', ''case'',
                              ''catch'', ''&&'', ''||'', ''?''])"

text \<open>One round of the loop over the lines: \<open>(maxNesting, currentNesting)\<close>.\<close>

definition nestingStep :: "string \<Rightarrow> string \<Rightarrow> nat \<times> nat \<Rightarrow> nat \<times> nat" where
  "nestingStep lang line st =
     (let trimmed = String_trim line;
          (maxNesting, currentNesting) = st;
          (maxNesting, currentNesting) =
            (if CHR ''{'' \<in> set trimmed
                \<or> String_match (seqs [Lit '':'', Star isSpace, InputEnd]) trimmed \<noteq> None
             then (max maxNesting (currentNesting + 1), currentNesting + 1)
             else (maxNesting, currentNesting))
      in if CHR ''}'' \<in> set trimmed
            \<or> (lang = ''py''
                \<and> String_match (Seq InputStart (LitAlt [''return'', ''pass'', ''break'', ''continue'']))
                     trimmed \<noteq> None)
         then (maxNesting, currentNesting - 1)
         else (maxNesting, currentNesting))"

definition analyzeFileComplexity ::
  "regexState \<Rightarrow> string \<Rightarrow> string \<Rightarrow> ComplexityEstimate \<times> regexState" where
  "analyzeFileComplexity st fname content =
     (let lang = langOf fname;
          (matches, li) = String_match_global (patternOf lang) content (st (ControlFlow lang));
          lines = String_split (CHR 0x0A) content
      in (\<lparr>ComplexityEstimate.complexity = length matches + 1,
           maxNesting = fst (fold (nestingStep lang) lines (0, 0)),
           longLines = length (filter (\<lambda>line. length line > maxLineLength) lines)\<rparr>,
          st(ControlFlow lang := li)))"

subsection \<open>detectCodeSmells\<close>

text \<open>The loop over \<open>CODE_SMELL_PATTERNS\<close>, from its \<open>i\<close>-th entry on.\<close>

fun detectLoop :: "regexState \<Rightarrow> string \<Rightarrow> nat \<Rightarrow> SmellRule list \<Rightarrow> Smell list \<times> regexState" where
  "detectLoop st content i [] = ([], st)"
| "detectLoop st content i (smell # rest) =
     (let (matches, li) =
            String_match_global (SmellRule.pattern smell) content (st (SmellPattern i));
          (smells, st') = detectLoop (st(SmellPattern i := li)) content (Suc i) rest
      in if length matches > 0
         then (\<lparr>Smell.type = SmellRule.type smell, Smell.count = length matches,
                 Smell.message = SmellRule.message smell\<rparr> # smells, st')
         else (smells, st'))"

definition detectCodeSmells :: "regexState \<Rightarrow> string \<Rightarrow> Smell list \<times> regexState" where
  "detectCodeSmells st content = detectLoop st content 0 CODE_SMELL_PATTERNS"

subsection \<open>isCodeFile\<close>

definition codeExtensions :: "string list" where
  "codeExtensions =
     [''.js'', ''.jsx'', ''.ts'', ''.tsx'', ''.py'', ''.java'', ''.kt'', ''.go'',
      ''.rb'', ''.rs'', ''.c'', ''.cpp'', ''.h'', ''.cs'', ''.php'', ''.swift'']"

definition isCodeFile :: "string \<Rightarrow> bool" where
  "isCodeFile fname \<longleftrightarrow> toLowerCase (extname fname) \<in> set codeExtensions"

subsection \<open>analyzeComplexity\<close>

definition emptyComplexityReport :: ComplexityReport where
  "emptyComplexityReport =
     \<lparr>warnings = [], largeFiles = [], complexFiles = [], codeSmells = [],
      stats = \<lparr>totalAdditions = 0, totalDeletions = 0, largestFile = None,
               averageFileSize = 0\<rparr>\<rparr>"

definition addTotals :: "ChangedFile \<Rightarrow> ComplexityReport \<Rightarrow> ComplexityReport" where
  "addTotals file result =
     result\<lparr>stats := (stats result)
       \<lparr>totalAdditions := totalAdditions (stats result) + additions file,
        totalDeletions := totalDeletions (stats result) + deletions file\<rparr>\<rparr>"

definition checkLargeAdditions :: "ChangedFile \<Rightarrow> ComplexityReport \<Rightarrow> ComplexityReport" where
  "checkLargeAdditions file result =
     (if additions file > largeAdditions then
        result\<lparr>largeFiles := largeFiles result @
                 [\<lparr>LargeFile.filename = filename file, LargeFile.additions = additions file,
                   LargeFile.deletions = deletions file,
                   LargeFile.message =
                     ''Large file change: +'' @ decimal (additions file) @ '' lines''\<rparr>],
               warnings := warnings result @
                 [\<lparr>Warning.type = ''size'', Warning.severity = ''medium'',
                   Warning.filename = filename file,
                   Warning.message =
                     ''Adding '' @ decimal (additions file)
                     @ '' lines to single file. Consider breaking into smaller changes.''\<rparr>]\<rparr>
      else result)"

definition checkComplexity :: "string \<Rightarrow> ComplexityEstimate \<Rightarrow> ComplexityReport \<Rightarrow> ComplexityReport" where
  "checkComplexity fname c result =
     (if ComplexityEstimate.complexity c > maxCyclomaticComplexity then
        result\<lparr>complexFiles := complexFiles result @
                 [\<lparr>ComplexFile.filename = fname,
                   ComplexFile.complexity = ComplexityEstimate.complexity c,
                   ComplexFile.message =
                     ''High cyclomatic complexity: '' @ decimal (ComplexityEstimate.complexity c)\<rparr>],
               warnings := warnings result @
                 [\<lparr>Warning.type = ''complexity'', Warning.severity = ''high'',
                   Warning.filename = fname,
                   Warning.message =
                     ''Estimated cyclomatic complexity (''
                     @ decimal (ComplexityEstimate.complexity c)
                     @ '') exceeds threshold ('' @ decimal maxCyclomaticComplexity @ '')''\<rparr>]\<rparr>
      else result)"

definition checkNesting :: "string \<Rightarrow> ComplexityEstimate \<Rightarrow> ComplexityReport \<Rightarrow> ComplexityReport" where
  "checkNesting fname c result =
     (if maxNesting c > maxNestingDepth then
        result\<lparr>warnings := warnings result @
                 [\<lparr>Warning.type = ''nesting'', Warning.severity = ''medium'',
                   Warning.filename = fname,
                   Warning.message =
                     ''Deep nesting detected ('' @ decimal (maxNesting c)
                     @ '' levels). Consider refactoring.''\<rparr>]\<rparr>
      else result)"

definition pushSmells :: "string \<Rightarrow> Smell list \<Rightarrow> ComplexityReport \<Rightarrow> ComplexityReport" where
  "pushSmells fname smells result =
     result\<lparr>codeSmells := codeSmells result @
       map (\<lambda>smell. \<lparr>Smell.type = Smell.type smell, Smell.count = Smell.count smell,
                      Smell.message = Smell.message smell, CodeSmell.filename = fname\<rparr>)
           smells\<rparr>"

definition checkLongLines :: "string \<Rightarrow> ComplexityEstimate \<Rightarrow> ComplexityReport \<Rightarrow> ComplexityReport" where
  "checkLongLines fname c result =
     (if longLines c > 0 then
        result\<lparr>warnings := warnings result @
                 [\<lparr>Warning.type = ''formatting'', Warning.severity = ''low'',
                   Warning.filename = fname,
                   Warning.message =
                     decimal (longLines c) @ '' line(s) exceed '' @ decimal maxLineLength
                     @ '' characters''\<rparr>]\<rparr>
      else result)"

text \<open>
  The body of \<open>for (const file of files)\<close> in \<open>analyzeComplexity\<close>: the five definitions
  above are its statements, in the order of the source.  A file content that is absent
  from the diff map or empty is falsy.
\<close>

definition analyzeComplexity_file ::
  "(string \<Rightarrow> string \<Rightarrow> bool) \<Rightarrow> jsval list \<Rightarrow> (string \<rightharpoonup> string) \<Rightarrow> regexState
     \<Rightarrow> ComplexityReport \<Rightarrow> ChangedFile \<Rightarrow> (js_error + ComplexityReport) \<times> regexState" where
  "analyzeComplexity_file glob ignores diffContent st result file =
     (case Array_some (minimatch glob (filename file)) ignores of
        Inl e \<Rightarrow> (Inl e, st)
      | Inr ignored \<Rightarrow>
          if ignored then (Inr result, st)
          else if \<not> isCodeFile (filename file) then (Inr result, st)
          else
            (let result1 = checkLargeAdditions file (addTotals file result)
             in case diffContent (filename file) of
                  None \<Rightarrow> (Inr result1, st)
                | Some fileContent \<Rightarrow>
                    if fileContent = [] then (Inr result1, st)
                    else
                      (let (c, st1) = analyzeFileComplexity st (filename file) fileContent;
                           result2 = checkNesting (filename file) c
                                       (checkComplexity (filename file) c result1);
                           (smells, st2) = detectCodeSmells st1 fileContent;
                           result3 = checkLongLines (filename file) c
                                       (pushSmells (filename file) smells result2)
                       in (Inr result3, st2))))"

fun analyzeComplexity_loop ::
  "(string \<Rightarrow> string \<Rightarrow> bool) \<Rightarrow> jsval list \<Rightarrow> (string \<rightharpoonup> string) \<Rightarrow> regexState
     \<Rightarrow> ComplexityReport \<Rightarrow> ChangedFile list \<Rightarrow> (js_error + ComplexityReport) \<times> regexState" where
  "analyzeComplexity_loop glob ignores diffContent st result [] = (Inr result, st)"
| "analyzeComplexity_loop glob ignores diffContent st result (file # rest) =
     (case analyzeComplexity_file glob ignores diffContent st result file of
        (Inl e, st') \<Rightarrow> (Inl e, st')
      | (Inr result', st') \<Rightarrow> analyzeComplexity_loop glob ignores diffContent st' result' rest)"

text \<open>
  \<open>Math.round(a / n)\<close> for natural numbers, \<open>n\<close> positive: the quotient rounded to the
  nearest integer, halves upwards.  (The quotient of the source is a double; for counts of
  lines and files it is exact enough for the rounding to agree.)
\<close>

definition Math_round_div :: "nat \<Rightarrow> nat \<Rightarrow> nat" where
  "Math_round_div a n = (2 * a + n) div (2 * n)"

text \<open>\<open>files.reduce((max, f) => f.additions > max.additions ? f : max, files[0])\<close>.\<close>

definition largestOf :: "ChangedFile list \<Rightarrow> ChangedFile" where
  "largestOf fs = fold (\<lambda>f mx. if additions f > additions mx then f else mx) fs (hd fs)"

definition calculateStats :: "ChangedFile list \<Rightarrow> ComplexityReport \<Rightarrow> ComplexityReport" where
  "calculateStats fs result =
     (if length fs > 0 then
        result\<lparr>stats := (stats result)
          \<lparr>averageFileSize := Math_round_div (totalAdditions (stats result)) (length fs),
           largestFile := Some \<lparr>LargestFile.filename = filename (largestOf fs),
                                LargestFile.additions = additions (largestOf fs)\<rparr>\<rparr>\<rparr>
      else result)"

definition analyzeComplexity ::
  "(string \<Rightarrow> string \<Rightarrow> bool) \<Rightarrow> regexState \<Rightarrow> ChangedFile list \<Rightarrow> jsval \<Rightarrow> options
     \<Rightarrow> (js_error + ComplexityReport) \<times> regexState" where
  "analyzeComplexity glob st fs diff opts =
     (case analyzeComplexity_loop glob (ignorePatterns opts) (parseDiff diff) st
             emptyComplexityReport fs of
        (Inl e, st') \<Rightarrow> (Inl e, st')
      | (Inr result, st') \<Rightarrow> (Inr (calculateStats fs result), st'))"

section \<open>Auxiliary notions used in the proofs\<close>

text \<open>The three severity levels of the data model.\<close>

definition levels :: "string set" where
  "levels = {''high'', ''medium'', ''low''}"

text \<open>The loop invariant of the counters: each counts the findings of its level, and every
  finding has one of the three levels.\<close>

definition countsOK :: "RiskReport \<Rightarrow> bool" where
  "countsOK r \<longleftrightarrow>
     highRiskCount r = length (filter (\<lambda>rf. riskFile.severity rf = ''high'') (files r)) \<and>
     mediumRiskCount r = length (filter (\<lambda>rf. riskFile.severity rf = ''medium'') (files r)) \<and>
     lowRiskCount r = length (filter (\<lambda>rf. riskFile.severity rf = ''low'') (files r)) \<and>
     (\<forall>rf\<in>set (files r). riskFile.severity rf \<in> levels)"

text \<open>What a run assigns: file names with their severities, and the counters.\<close>

definition sevView :: "RiskReport \<Rightarrow> (string \<times> string) list \<times> nat \<times> nat \<times> nat" where
  "sevView r = (map (\<lambda>rf. (filename rf, riskFile.severity rf)) (files r),
                highRiskCount r, mediumRiskCount r, lowRiskCount r)"

text \<open>The string of a pattern that is one.\<close>

fun patternString :: "jsval \<Rightarrow> string" where
  "patternString (JStr s) = s"
| "patternString _ = []"

text \<open>
  The state of the regular expression objects after a run: \<open>lastIndex\<close> is 0 on the
  objects the run has used and as before on the others.  The remaining definitions name
  the state-free components of the results of the complexity analyzer, and the warnings
  it pushes.
\<close>

definition resetOn :: "regexObject set \<Rightarrow> regexState \<Rightarrow> regexState" where
  "resetOn U st = (\<lambda>k. if k \<in> U then 0 else st k)"

definition estimateOf :: "string \<Rightarrow> string \<Rightarrow> ComplexityEstimate" where
  "estimateOf fname content = fst (analyzeFileComplexity (\<lambda>_. 0) fname content)"

definition smellsOf :: "string \<Rightarrow> Smell list" where
  "smellsOf content = fst (detectCodeSmells (\<lambda>_. 0) content)"

definition usedRegexes ::
  "(string \<Rightarrow> string \<Rightarrow> bool) \<Rightarrow> jsval list \<Rightarrow> (string \<rightharpoonup> string) \<Rightarrow> ChangedFile \<Rightarrow> regexObject set" where
  "usedRegexes glob ig dc file =
     (if Array_some (minimatch glob (filename file)) ig = Inr False \<and> isCodeFile (filename file) \<and>
         (\<exists>c. dc (filename file) = Some c \<and> c \<noteq> [])
      then SmellPattern ` {0..<length CODE_SMELL_PATTERNS} \<union> {ControlFlow (langOf (filename file))}
      else {})"

definition fileReport ::
  "(string \<Rightarrow> string \<Rightarrow> bool) \<Rightarrow> jsval list \<Rightarrow> (string \<rightharpoonup> string) \<Rightarrow> ComplexityReport
     \<Rightarrow> ChangedFile \<Rightarrow> js_error + ComplexityReport" where
  "fileReport glob ig dc result file = fst (analyzeComplexity_file glob ig dc (\<lambda>_. 0) result file)"

definition loopReport ::
  "(string \<Rightarrow> string \<Rightarrow> bool) \<Rightarrow> jsval list \<Rightarrow> (string \<rightharpoonup> string) \<Rightarrow> ComplexityReport
     \<Rightarrow> ChangedFile list \<Rightarrow> js_error + ComplexityReport" where
  "loopReport glob ig dc result fs = fst (analyzeComplexity_loop glob ig dc (\<lambda>_. 0) result fs)"

definition sizeWarning :: "ChangedFile \<Rightarrow> Warning" where
  "sizeWarning file =
     \<lparr>Warning.type = ''size'', Warning.severity = ''medium'', Warning.filename = filename file,
      Warning.message = ''Adding '' @ decimal (additions file)
         @ '' lines to single file. Consider breaking into smaller changes.''\<rparr>"

definition complexityWarning :: "string \<Rightarrow> nat \<Rightarrow> Warning" where
  "complexityWarning fname c =
     \<lparr>Warning.type = ''complexity'', Warning.severity = ''high'', Warning.filename = fname,
      Warning.message = ''Estimated cyclomatic complexity ('' @ decimal c
         @ '') exceeds threshold ('' @ decimal maxCyclomaticComplexity @ '')''\<rparr>"

definition nestingWarning :: "string \<Rightarrow> nat \<Rightarrow> Warning" where
  "nestingWarning fname n =
     \<lparr>Warning.type = ''nesting'', Warning.severity = ''medium'', Warning.filename = fname,
      Warning.message = ''Deep nesting detected ('' @ decimal n
         @ '' levels). Consider refactoring.''\<rparr>"

definition formattingWarning :: "string \<Rightarrow> nat \<Rightarrow> Warning" where
  "formattingWarning fname n =
     \<lparr>Warning.type = ''formatting'', Warning.severity = ''low'', Warning.filename = fname,
      Warning.message = decimal n @ '' line(s) exceed '' @ decimal maxLineLength
         @ '' characters''\<rparr>"

subsection \<open>Tokens as words\<close>

text \<open>
  Modelled from the spec: the occurrences of the tokens of a language in the added text
  (section 4.4: count the non-overlapping token matches in the added text), each read as a
  whole word.  A word is a maximal run of word characters (letters, digits and \<open>_\<close>);
  \<open>tokenRuns toks inWord s\<close> is the number of words of \<open>s\<close> that are one of \<open>toks\<close>, where
  \<open>inWord\<close> tells whether the character before \<open>s\<close> is a word character.
\<close>

fun tokenRuns :: "string list \<Rightarrow> bool \<Rightarrow> string \<Rightarrow> nat" where
  "tokenRuns toks inWord [] = 0"
| "tokenRuns toks inWord (c # cs) =
     (if \<not> inWord \<and> isWordChar c \<and> takeWhile isWordChar (c # cs) \<in> set toks then 1 else 0)
     + tokenRuns toks (isWordChar c) cs"

text \<open>Every token is not empty, and is a word unless it starts with one of the characters
  \<open>ops\<close>.\<close>

definition tokensOK :: "char set \<Rightarrow> string list \<Rightarrow> bool" where
  "tokensOK ops toks \<longleftrightarrow> (\<forall>w\<in>set toks. w \<noteq> [] \<and> ((\<forall>c\<in>set w. isWordChar c) \<or> hd w \<in> ops))"

text \<open>The \<open>severity\<close> property of an element of \<open>customPatterns\<close>, where it has one.\<close>

definition suppliedSeverity :: "customPattern \<Rightarrow> string option" where
  "suppliedSeverity c = (case c of CustomObject pat cat sev msg \<Rightarrow> sev | CustomValue v \<Rightarrow> None)"


section \<open>The two analyzers and the state of their modules\<close>

text \<open>
  What outlives a call of \<open>analyzeRisk\<close> or \<open>analyzeComplexity\<close>: the array
  \<open>DEFAULT_RISK_PATTERNS\<close> of the module \<open>risk.js\<close>, which every call reads, and the
  \<open>lastIndex\<close> of the regular expression objects of \<open>complexity.js\<close>.  The result
  objects, the rule list \<open>patterns\<close> and the diff map are created by the call.
\<close>

record moduleState =
  riskTable :: "RiskRule list"
  regexes :: regexState

text \<open>
  \<open>analyzeRisk\<close> with the module array as state.  The spread
  \<open>[...DEFAULT_RISK_PATTERNS, ...customPatterns.map(...)]\<close> copies the array into a new
  one; no statement of the function assigns to the array or to one of its rule objects,
  and a finding holds the strings of a rule, not the rule object.
\<close>

definition analyzeRisk_st ::
  "(string \<Rightarrow> string \<Rightarrow> bool) \<Rightarrow> ChangedFile list \<Rightarrow> riskOptions \<Rightarrow> RiskRule list
     \<Rightarrow> (js_error + RiskReport) \<times> RiskRule list" where
  "analyzeRisk_st glob fs opts table =
     (case Array_map toRiskRule (customPatterns opts) of
        Inl e \<Rightarrow> (Inl e, table)
      | Inr custom \<Rightarrow>
          (analyzeRisk_loop glob (table @ custom) (ignorePatterns opts) emptyRiskReport fs, table))"

text \<open>A call of one of the two entry points, what it returns, and the state it leaves.\<close>

datatype invocation =
    RunRisk "ChangedFile list" riskOptions
  | RunComplexity "ChangedFile list" jsval options

datatype outcome =
    RiskOutcome "js_error + RiskReport"
  | ComplexityOutcome "js_error + ComplexityReport"

fun invoke :: "(string \<Rightarrow> string \<Rightarrow> bool) \<Rightarrow> invocation \<Rightarrow> moduleState \<Rightarrow> outcome \<times> moduleState" where
  "invoke glob (RunRisk fs opts) w =
     (let (r, table) = analyzeRisk_st glob fs opts (riskTable w)
      in (RiskOutcome r, w\<lparr>riskTable := table\<rparr>))"
| "invoke glob (RunComplexity fs diff opts) w =
     (let (r, st) = analyzeComplexity glob (regexes w) fs diff opts
      in (ComplexityOutcome r, w\<lparr>regexes := st\<rparr>))"

text \<open>The state after a sequence of calls, and the state after the modules are loaded.\<close>

definition invokeAll :: "(string \<Rightarrow> string \<Rightarrow> bool) \<Rightarrow> invocation list \<Rightarrow> moduleState \<Rightarrow> moduleState" where
  "invokeAll glob history w = fold (\<lambda>i w. snd (invoke glob i w)) history w"

definition loadedState :: moduleState where
  "loadedState = \<lparr>riskTable = DEFAULT_RISK_PATTERNS, regexes = (\<lambda>_. 0)\<rparr>"

section \<open>Concrete inputs\<close>

definition exFiles :: "ChangedFile list" where
  "exFiles = [\<lparr>filename = ''.env.production'', status = ''modified'', additions = 5, deletions = 0\<rparr>,
              \<lparr>filename = ''package-lock.json'', status = ''modified'', additions = 40, deletions = 2\<rparr>,
              \<lparr>filename = ''vendor/config/settings.json'', status = ''added'', additions = 10, deletions = 0\<rparr>]"

definition exOptions :: riskOptions where
  "exOptions = \<lparr>ignorePatterns = [JStr ''**/vendor/**''], customPatterns = []\<rparr>"

definition exReport :: RiskReport where
  "exReport =
     \<lparr>files =
        [\<lparr>filename = ''.env.production'', status = ''modified'', additions = 5, deletions = 0,
          severity = ''high'', categories = [''security''],
          messages = [''Environment configuration file''], patterns = [JStr ''**/.env*'']\<rparr>,
         \<lparr>filename = ''package-lock.json'', status = ''modified'', additions = 40, deletions = 2,
          severity = ''low'', categories = [''dependencies''],
          messages = [''Node.js lockfile''], patterns = [JStr ''**/package-lock.json'']\<rparr>],
      highRiskCount = 1, mediumRiskCount = 0, lowRiskCount = 1,
      byCategory = [(''security'', [''.env.production'']), (''dependencies'', [''package-lock.json''])]\<rparr>"

definition exPaymentFile :: ChangedFile where
  "exPaymentFile =
     \<lparr>filename = ''src/payments/checkout.js'', status = ''modified'', additions = 50, deletions = 0\<rparr>"

definition exPaymentReport :: RiskReport where
  "exPaymentReport =
     \<lparr>files =
        [\<lparr>filename = ''src/payments/checkout.js'', status = ''modified'', additions = 50,
          deletions = 0, severity = ''low'', categories = [''financial''],
          messages = [''Payment code''], patterns = [JStr ''**/payments/**'']\<rparr>],
      highRiskCount = 0, mediumRiskCount = 0, lowRiskCount = 1,
      byCategory = [(''financial'', [''src/payments/checkout.js''])]\<rparr>"

definition exSqlRules :: "RiskRule list" where
  "exSqlRules = [rule ''**/*.sql'' ''database'' ''medium'' ''SQL file'',
                 rule ''**/migrations/**'' ''database'' ''high'' ''Database migration'']"

definition exSqlFiles :: "ChangedFile list" where
  "exSqlFiles =
     [\<lparr>filename = ''migrations/20240101_add_users.sql'', status = ''added'', additions = 50,
       deletions = 0\<rparr>]"



definition exRenameDiff :: string where
  "exRenameDiff = ''diff --git a/old.js b/new.js'' @ [CHR 0x0A] @ ''+x'' @ [CHR 0x0A]"

definition exNoPrefixDiff :: string where
  "exNoPrefixDiff =
     ''diff --git lib.js lib.js'' @ [CHR 0x0A] @ ''+// see a/foo b/bar'' @ [CHR 0x0A]"

definition exDiff :: string where
  "exDiff =
     ''diff --git a/src/app.js b/src/app.js'' @ [CHR 0x0A] @
     ''--- a/src/app.js'' @ [CHR 0x0A] @
     ''+++ b/src/app.js'' @ [CHR 0x0A] @
     ''@@ -1,2 +1,3 @@'' @ [CHR 0x0A] @
     '' const a = 1;'' @ [CHR 0x0A] @
     ''-old();'' @ [CHR 0x0A] @
     ''+if (a) {'' @ [CHR 0x0A] @
     ''+}'' @ [CHR 0x0A] @
     ''diff --git lib.js lib.js'' @ [CHR 0x0A] @
     ''+dropped();'' @ [CHR 0x0A] @
     ''diff --git a/b.py b/b.py'' @ [CHR 0x0A] @
     ''+pass'' @ [CHR 0x0A]"

definition exStatsFiles :: "ChangedFile list" where
  "exStatsFiles =
     [\<lparr>filename = ''src/a.js'', status = ''modified'', additions = 10, deletions = 0\<rparr>,
      \<lparr>filename = ''vendor/lib.js'', status = ''added'', additions = 100, deletions = 0\<rparr>]"

definition exIfText :: string where
  "exIfText = ''if(a)b();if(a)b();if(a)b();if(a)b();if(a)b();if(a)b();if(a)b();if(a)b();if(a)b();if(a)b();if(a)b();''"

definition exOperatorText :: string where
  "exOperatorText = ''x = a && b && c && d && e && f && g && h && i && j && k && l;''"

definition exDiffOf :: "string \<Rightarrow> string \<Rightarrow> string" where
  "exDiffOf fname text =
     ''diff --git a/'' @ fname @ '' b/'' @ fname @ [CHR 0x0A] @ ''+'' @ text @ [CHR 0x0A]"

definition exFileOf :: "string \<Rightarrow> ChangedFile" where
  "exFileOf fname = \<lparr>filename = fname, status = ''modified'', additions = 1, deletions = 0\<rparr>"

definition jsTokens :: "string list" where
  "jsTokens = [''if'', ''else'', ''for'', ''while'', ''do'', ''switch'', ''case'', ''catch'', ''&&'', ''||'', ''?'']"

definition exIfReport :: ComplexityReport where
  "exIfReport =
     \<lparr>warnings =
        [\<lparr>Warning.type = ''complexity'', Warning.severity = ''high'',
          Warning.filename = ''src/a.js'',
          Warning.message = ''Estimated cyclomatic complexity (12) exceeds threshold (10)''\<rparr>],
      largeFiles = [],
      complexFiles =
        [\<lparr>ComplexFile.filename = ''src/a.js'', ComplexFile.complexity = 12,
          ComplexFile.message = ''High cyclomatic complexity: 12''\<rparr>],
      codeSmells = [],
      stats = \<lparr>totalAdditions = 1, totalDeletions = 0,
               largestFile = Some \<lparr>LargestFile.filename = ''src/a.js'', LargestFile.additions = 1\<rparr>,
               averageFileSize = 1\<rparr>\<rparr>"

definition exIgnoredFiles :: "ChangedFile list" where
  "exIgnoredFiles =
     [\<lparr>filename = ''src/auth/login.js'', status = ''added'', additions = 400, deletions = 0\<rparr>,
      \<lparr>filename = ''vendor/config/settings.js'', status = ''added'', additions = 350, deletions = 0\<rparr>]"

definition exIgnoredRiskReport :: RiskReport where
  "exIgnoredRiskReport =
     \<lparr>files =
        [\<lparr>filename = ''src/auth/login.js'', status = ''added'', additions = 400, deletions = 0,
          severity = ''high'', categories = [''security''],
          messages = [''Authentication code''], patterns = [JStr ''**/auth/**'']\<rparr>],
      highRiskCount = 1, mediumRiskCount = 0, lowRiskCount = 0,
      byCategory = [(''security'', [''src/auth/login.js''])]\<rparr>"

definition exIgnoredComplexityReport :: ComplexityReport where
  "exIgnoredComplexityReport =
     \<lparr>warnings =
        [\<lparr>Warning.type = ''size'', Warning.severity = ''medium'',
          Warning.filename = ''src/auth/login.js'',
          Warning.message =
            ''Adding 400 lines to single file. Consider breaking into smaller changes.''\<rparr>],
      largeFiles =
        [\<lparr>LargeFile.filename = ''src/auth/login.js'', LargeFile.additions = 400,
          LargeFile.deletions = 0, LargeFile.message = ''Large file change: +400 lines''\<rparr>],
      complexFiles = [], codeSmells = [],
      stats = \<lparr>totalAdditions = 400, totalDeletions = 0,
               largestFile = Some \<lparr>LargestFile.filename = ''src/auth/login.js'',
                                    LargestFile.additions = 400\<rparr>,
               averageFileSize = 200\<rparr>\<rparr>"

definition exEmptySeverityOptions :: riskOptions where
  "exEmptySeverityOptions = \<lparr>ignorePatterns = [],
      customPatterns = [CustomObject (JStr ''**/payments/**'') (Some ''financial'') (Some []) (Some ''Payment code'')]\<rparr>"

definition exCriticalOptions :: riskOptions where
  "exCriticalOptions = \<lparr>ignorePatterns = [],
      customPatterns = [CustomObject (JStr ''**/payments/**'') (Some ''financial'') (Some ''critical'') (Some ''Payment code'')]\<rparr>"

definition exEmptySeverityReport :: RiskReport where
  "exEmptySeverityReport =
     \<lparr>files =
        [\<lparr>filename = ''src/payments/checkout.js'', status = ''modified'', additions = 50,
          deletions = 0, severity = ''medium'', categories = [''financial''],
          messages = [''Payment code''], patterns = [JStr ''**/payments/**'']\<rparr>],
      highRiskCount = 0, mediumRiskCount = 1, lowRiskCount = 0,
      byCategory = [(''financial'', [''src/payments/checkout.js''])]\<rparr>"


definition exScenarioText :: string where
  "exScenarioText = ''if (a && b || c) { x = d ? e : f; }''"

section \<open>Lemmas about the array helpers and the severity fold\<close>


lemma Array_filter_Inr: "Array_filter f xs = Inr ys \<Longrightarrow> ys = filter (\<lambda>x. f x = Inr True) xs"
  by (induction xs arbitrary: ys) (auto split: sum.splits if_splits)

lemma Array_filter_total:
  "(\<forall>x\<in>set xs. \<exists>b. f x = Inr b) \<Longrightarrow> Array_filter f xs = Inr (filter (\<lambda>x. f x = Inr True) xs)"
  by (induction xs) (auto split: sum.splits)

lemma Array_filter_Inr_all: "Array_filter f xs = Inr ys \<Longrightarrow> \<forall>x\<in>set xs. \<not> isl (f x)"
  by (induction xs arbitrary: ys) (auto split: sum.splits)


lemma Array_some_True: "Array_some f xs = Inr True \<Longrightarrow> \<exists>x\<in>set xs. f x = Inr True"
  by (induction xs) (auto split: sum.splits if_splits)

lemma Array_some_False: "Array_some f xs = Inr False \<Longrightarrow> \<forall>x\<in>set xs. f x = Inr False"
  by (induction xs) (auto split: sum.splits if_splits)

lemma Array_some_hit: "\<exists>x\<in>set xs. f x = Inr True \<Longrightarrow> Array_some f xs \<noteq> Inr False"
  using Array_some_False by fastforce
lemma fold_sev:
  "h \<in> levels \<Longrightarrow>
   fold (\<lambda>p highest. if js_gt (severityOrder (RiskRule.severity p)) (severityOrder highest)
             then RiskRule.severity p else highest) ps h =
   (if h = ''high'' \<or> ''high'' \<in> RiskRule.severity ` set ps then ''high''
    else if h = ''medium'' \<or> ''medium'' \<in> RiskRule.severity ` set ps then ''medium'' else ''low'')"
proof (induction ps arbitrary: h)
  case Nil then show ?case by (auto simp: levels_def)
next
  case (Cons p ps)
  let ?h' = "if js_gt (severityOrder (RiskRule.severity p)) (severityOrder h) then RiskRule.severity p else h"
  have h': "?h' \<in> levels" using Cons.prems
    by (auto simp: levels_def js_gt_def severityOrder_def split: if_splits option.splits)
  show ?case
    using Cons.prems
    apply (simp only: fold_simps Cons.IH[OF h'])
    apply (auto simp: levels_def js_gt_def severityOrder_def split: if_splits option.splits)
    done
qed

lemma getHighestSeverity_eq:
  "getHighestSeverity ps =
   (if ''high'' \<in> RiskRule.severity ` set ps then ''high''
    else if ''medium'' \<in> RiskRule.severity ` set ps then ''medium'' else ''low'')"
  unfolding getHighestSeverity_def by (subst fold_sev) (auto simp: levels_def)


lemma getHighestSeverity_levels: "getHighestSeverity ps \<in> levels"
  by (simp add: getHighestSeverity_eq levels_def)

lemma getHighestSeverity_Max:
  assumes "ms \<noteq> []" and "\<forall>p\<in>set ms. RiskRule.severity p \<in> levels"
  shows "severityOrder (getHighestSeverity ms) =
         Some (Max ((\<lambda>p. the (severityOrder (RiskRule.severity p))) ` set ms))"
proof -
  let ?R = "(\<lambda>p. the (severityOrder (RiskRule.severity p))) ` set ms"
  have fin: "finite ?R" by simp
  have ne: "?R \<noteq> {}" using assms(1) by simp
  have bound: "\<forall>n\<in>?R. 1 \<le> n \<and> n \<le> 3"
    using assms(2) by (auto simp: levels_def severityOrder_def)
  consider (h) "''high'' \<in> RiskRule.severity ` set ms"
    | (m) "''high'' \<notin> RiskRule.severity ` set ms" "''medium'' \<in> RiskRule.severity ` set ms"
    | (l) "''high'' \<notin> RiskRule.severity ` set ms" "''medium'' \<notin> RiskRule.severity ` set ms"
    by blast
  then show ?thesis
  proof cases
    case h
    then have "3 \<in> ?R" by (force simp: severityOrder_def)
    then have "Max ?R = 3" using bound fin by (intro Max_eqI) auto
    then show ?thesis using h by (simp add: getHighestSeverity_eq severityOrder_def)
  next
    case m
    then have "2 \<in> ?R" by (force simp: severityOrder_def)
    moreover have nh: "\<forall>p\<in>set ms. RiskRule.severity p \<noteq> ''high''"
      using m(1) by force
    then have "\<forall>n\<in>?R. n \<le> 2"
      using assms(2) by (auto simp: levels_def severityOrder_def)
    ultimately have "Max ?R = 2" using fin by (intro Max_eqI) auto
    then show ?thesis using m by (simp add: getHighestSeverity_eq severityOrder_def)
  next
    case l
    then have "\<forall>p\<in>set ms. RiskRule.severity p \<noteq> ''high'' \<and> RiskRule.severity p \<noteq> ''medium''"
      by force
    then have all: "\<forall>p\<in>set ms. RiskRule.severity p = ''low''"
      using assms(2) by (auto simp: levels_def)
    then have "?R = {1}" using assms(1) by (auto simp: severityOrder_def image_def intro: exI[of _ "hd ms"])
    then show ?thesis using l by (simp add: getHighestSeverity_eq severityOrder_def)
  qed
qed

lemma set_Set_spread_aux:
  "set (fold (\<lambda>x acc. if x \<in> set acc then acc else acc @ [x]) xs ys) = set xs \<union> set ys"
  by (induction xs arbitrary: ys) auto

lemma set_Set_spread: "set (Set_spread xs) = set xs"
  by (simp add: Set_spread_def set_Set_spread_aux)

lemma pushCategory_Inr_iff:
  "(\<exists>b. pushCategory fname byCat c = Inr b) \<longleftrightarrow> c \<notin> set objectPrototypeKeys"
  by (auto simp: pushCategory_def split: option.splits)

lemma pushCategories_Inr_iff:
  "(\<exists>b. pushCategories fname cats byCat = Inr b) \<longleftrightarrow> (\<forall>c\<in>set cats. c \<notin> set objectPrototypeKeys)"
proof (induction cats arbitrary: byCat)
  case Nil then show ?case by simp
next
  case (Cons c cats)
  show ?case
  proof (cases "pushCategory fname byCat c")
    case (Inl e)
    then have "c \<in> set objectPrototypeKeys" using pushCategory_Inr_iff[of fname byCat c] by auto
    then show ?thesis using Inl by simp
  next
    case (Inr b)
    then have "c \<notin> set objectPrototypeKeys" using pushCategory_Inr_iff[of fname byCat c] by auto
    then show ?thesis using Inr Cons.IH[of b] by simp
  qed
qed

lemma countSeverity_files [simp]: "files (countSeverity s r) = files r"
  and countSeverity_byCategory [simp]: "byCategory (countSeverity s r) = byCategory r"
  by (simp_all add: countSeverity_def)

lemma analyzeRisk_file_cases:
  assumes "analyzeRisk_file glob pats ignores result file = Inr r"
  obtains (ignored) "Array_some (minimatch glob (filename file)) ignores = Inr True" "r = result"
  | (unmatched) "Array_some (minimatch glob (filename file)) ignores = Inr False"
      "Array_filter (\<lambda>p. minimatch glob (filename file) (pattern p)) pats = Inr []" "r = result"
  | (matched) ms byCat where "Array_some (minimatch glob (filename file)) ignores = Inr False"
      "Array_filter (\<lambda>p. minimatch glob (filename file) (pattern p)) pats = Inr ms" "ms \<noteq> []"
      "pushCategories (filename file) (categories (mkRiskFile file ms)) (byCategory result) = Inr byCat"
      "r = (countSeverity (riskFile.severity (mkRiskFile file ms))
              (result\<lparr>files := files result @ [mkRiskFile file ms]\<rparr>))\<lparr>byCategory := byCat\<rparr>"
  using assms unfolding analyzeRisk_file_def
  by (auto split: sum.splits if_splits simp: Let_def)

lemma mkRiskFile_severity [simp]:
  "riskFile.severity (mkRiskFile file ms) = getHighestSeverity ms"
  by (simp add: mkRiskFile_def)

lemma mkRiskFile_filename [simp]: "filename (mkRiskFile file ms) = filename file"
  by (simp add: mkRiskFile_def)

lemma countsOK_step:
  assumes "countsOK result" and "analyzeRisk_file glob pats ignores result file = Inr r"
  shows "countsOK r"
  using assms(2)
proof (cases rule: analyzeRisk_file_cases)
  case (matched ms byCat)
  have "getHighestSeverity ms \<in> levels" by (rule getHighestSeverity_levels)
  then show ?thesis using assms(1) matched(5)
    by (auto simp: countsOK_def countSeverity_def levels_def)
qed (use assms(1) in auto)

lemma countsOK_loop:
  "countsOK result \<Longrightarrow> analyzeRisk_loop glob pats ignores result fs = Inr r \<Longrightarrow> countsOK r"
proof (induction fs arbitrary: result)
  case Nil then show ?case by simp
next
  case (Cons f fs)
  then show ?case by (auto split: sum.splits dest: countsOK_step)
qed

lemma length_three_way:
  "\<forall>x\<in>set xs. f x \<in> levels \<Longrightarrow>
   length (filter (\<lambda>x. f x = ''high'') xs) + length (filter (\<lambda>x. f x = ''medium'') xs)
     + length (filter (\<lambda>x. f x = ''low'') xs) = length xs"
  by (induction xs) (auto simp: levels_def)

lemma analyzeRisk_Inr:
  "analyzeRisk glob fs opts = Inr r \<Longrightarrow>
   \<exists>custom. Array_map toRiskRule (customPatterns opts) = Inr custom \<and>
     analyzeRisk_loop glob (DEFAULT_RISK_PATTERNS @ custom) (ignorePatterns opts) emptyRiskReport fs = Inr r"
  by (auto simp: analyzeRisk_def split: sum.splits)

lemma getHighestSeverity_unknown:
  "\<forall>p\<in>set ms. RiskRule.severity p \<notin> levels \<Longrightarrow> getHighestSeverity ms = ''low''"
  by (auto simp: getHighestSeverity_eq levels_def)

lemma getHighestSeverity_set:
  "set ms = set ms' \<Longrightarrow> getHighestSeverity ms = getHighestSeverity ms'"
  by (simp add: getHighestSeverity_eq)

lemma Array_filter_perm:
  assumes "mset xs' = mset xs" and "Array_filter f xs = Inr ys"
  shows "\<exists>ys'. Array_filter f xs' = Inr ys' \<and> mset ys' = mset ys"
proof -
  have ys: "ys = filter (\<lambda>x. f x = Inr True) xs" using assms(2) by (rule Array_filter_Inr)
  have "\<forall>x\<in>set xs. \<not> isl (f x)" using assms(2) by (rule Array_filter_Inr_all)
  moreover have "set xs' = set xs" using assms(1) by (rule mset_eq_setD)
  ultimately have "\<forall>x\<in>set xs'. \<exists>b. f x = Inr b" by (metis isl_def sum.exhaust_sel sum.collapse(2))
  then have "Array_filter f xs' = Inr (filter (\<lambda>x. f x = Inr True) xs')"
    by (rule Array_filter_total)
  moreover have "mset (filter (\<lambda>x. f x = Inr True) xs') = mset ys"
    using assms(1) ys by simp
  ultimately show ?thesis by blast
qed

lemma sevView_step:
  assumes perm: "mset pats' = mset pats"
    and view: "sevView r1' = sevView r1"
    and step: "analyzeRisk_file glob pats ignores r1 file = Inr r2"
  shows "\<exists>r2'. analyzeRisk_file glob pats' ignores r1' file = Inr r2' \<and> sevView r2' = sevView r2"
  using step
proof (cases rule: analyzeRisk_file_cases)
  case ignored
  then show ?thesis using view by (simp add: analyzeRisk_file_def)
next
  case unmatched
  obtain ms' where ms': "Array_filter (\<lambda>p. minimatch glob (filename file) (pattern p)) pats' = Inr ms'"
      "mset ms' = mset []"
    using Array_filter_perm[OF perm unmatched(2)] by blast
  then show ?thesis using unmatched view by (simp add: analyzeRisk_file_def)
next
  case (matched ms byCat)
  obtain ms' where ms': "Array_filter (\<lambda>p. minimatch glob (filename file) (pattern p)) pats' = Inr ms'"
      "mset ms' = mset ms"
    using Array_filter_perm[OF perm matched(2)] by blast
  have sets: "set ms' = set ms" using ms'(2) by (rule mset_eq_setD)
  have ne: "ms' \<noteq> []" using ms'(2) matched(3) by auto
  have sev: "getHighestSeverity ms' = getHighestSeverity ms"
    using sets by (rule getHighestSeverity_set)
  have "\<forall>c\<in>set (categories (mkRiskFile file ms)). c \<notin> set objectPrototypeKeys"
    using matched(4) pushCategories_Inr_iff by blast
  then have "\<forall>c\<in>set (categories (mkRiskFile file ms')). c \<notin> set objectPrototypeKeys"
    using sets by (simp add: mkRiskFile_def set_Set_spread)
  then obtain byCat' where
    push: "pushCategories (filename file) (categories (mkRiskFile file ms')) (byCategory r1') = Inr byCat'"
    using pushCategories_Inr_iff by blast
  have "analyzeRisk_file glob pats' ignores r1' file =
          Inr ((countSeverity (getHighestSeverity ms') (r1'\<lparr>files := files r1' @ [mkRiskFile file ms']\<rparr>))
                 \<lparr>byCategory := byCat'\<rparr>)"
    using matched(1) ms'(1) ne push by (simp add: analyzeRisk_file_def Let_def)
  moreover have "sevView ((countSeverity (getHighestSeverity ms') (r1'\<lparr>files := files r1' @ [mkRiskFile file ms']\<rparr>))
                 \<lparr>byCategory := byCat'\<rparr>) = sevView r2"
    using view sev matched(5) by (simp add: sevView_def countSeverity_def)
  ultimately show ?thesis by simp
qed

lemma sevView_loop:
  assumes "mset pats' = mset pats"
  shows "sevView r1' = sevView r1 \<Longrightarrow> analyzeRisk_loop glob pats ignores r1 fs = Inr r \<Longrightarrow>
         \<exists>r'. analyzeRisk_loop glob pats' ignores r1' fs = Inr r' \<and> sevView r' = sevView r"
proof (induction fs arbitrary: r1 r1')
  case Nil then show ?case by simp
next
  case (Cons f fs)
  from Cons.prems(2) obtain r2 where r2: "analyzeRisk_file glob pats ignores r1 f = Inr r2"
    and rest: "analyzeRisk_loop glob pats ignores r2 fs = Inr r"
    by (auto split: sum.splits)
  from sevView_step[OF assms Cons.prems(1) r2] obtain r2' where
    r2': "analyzeRisk_file glob pats' ignores r1' f = Inr r2'" "sevView r2' = sevView r2" by blast
  from Cons.IH[OF r2'(2) rest] show ?case using r2'(1) by simp
qed

lemma loop_findings:
  "analyzeRisk_loop glob pats ignores result fs = Inr r \<Longrightarrow>
   \<forall>rf\<in>set (files r). rf \<in> set (files result) \<or>
     (\<exists>f\<in>set fs. \<exists>ms. ms \<noteq> [] \<and>
        Array_filter (\<lambda>p. minimatch glob (filename f) (pattern p)) pats = Inr ms \<and>
        rf = mkRiskFile f ms)"
proof (induction fs arbitrary: result)
  case Nil then show ?case by simp
next
  case (Cons f fs)
  from Cons.prems obtain r2 where r2: "analyzeRisk_file glob pats ignores result f = Inr r2"
    and rest: "analyzeRisk_loop glob pats ignores r2 fs = Inr r"
    by (auto split: sum.splits)
  have step: "\<forall>rf\<in>set (files r2). rf \<in> set (files result) \<or>
     (\<exists>ms. ms \<noteq> [] \<and> Array_filter (\<lambda>p. minimatch glob (filename f) (pattern p)) pats = Inr ms \<and>
        rf = mkRiskFile f ms)"
    using r2 by (cases rule: analyzeRisk_file_cases) auto
  show ?case using Cons.IH[OF rest] step by fastforce
qed

lemma Array_filter_valid:
  "\<forall>p\<in>set pats. validPattern (pattern p) \<Longrightarrow>
   Array_filter (\<lambda>p. minimatch glob f (pattern p)) pats = Inr (filter (\<lambda>p. glob f (patternString (pattern p))) pats)"
proof (induction pats)
  case Nil then show ?case by simp
next
  case (Cons p pats)
  then show ?case by (cases "pattern p") (auto simp: validPattern_def minimatch_def)
qed

lemma Array_some_valid:
  "\<forall>i\<in>set ignores. validPattern i \<Longrightarrow>
   Array_some (minimatch glob f) ignores = Inr (\<exists>i\<in>set ignores. glob f (patternString i))"
proof (induction ignores)
  case Nil then show ?case by simp
next
  case (Cons i ignores)
  then show ?case by (cases i) (auto simp: validPattern_def minimatch_def)
qed

lemma DEFAULT_valid: "\<forall>p\<in>set DEFAULT_RISK_PATTERNS. validPattern (pattern p)"
  by (simp add: DEFAULT_RISK_PATTERNS_def rule_def validPattern_def MAX_PATTERN_LENGTH_def)

lemma analyzeRisk_file_valid:
  assumes "\<forall>i\<in>set ignores. validPattern i" and "\<forall>p\<in>set pats. validPattern (pattern p)"
  shows "analyzeRisk_file glob pats ignores result file =
     (if \<exists>i\<in>set ignores. glob (filename file) (patternString i) then Inr result
      else let ms = filter (\<lambda>p. glob (filename file) (patternString (pattern p))) pats in
           if ms = [] then Inr result
           else (case pushCategories (filename file) (categories (mkRiskFile file ms)) (byCategory result) of
                  Inl e \<Rightarrow> Inl e
                | Inr byCat \<Rightarrow>
                    Inr ((countSeverity (getHighestSeverity ms)
                           (result\<lparr>files := files result @ [mkRiskFile file ms]\<rparr>))\<lparr>byCategory := byCat\<rparr>)))"
  unfolding analyzeRisk_file_def Array_some_valid[OF assms(1)] Array_filter_valid[OF assms(2)]
  by (simp add: Let_def split: sum.splits)

lemma minimatch_valid:
  "validPattern pat \<Longrightarrow> minimatch glob f pat = Inr (glob f (patternString pat))"
  by (cases pat) (auto simp: validPattern_def minimatch_def)




lemma Array_map_Inr_mem:
  "Array_map g xs = Inr ys \<Longrightarrow> x \<in> set xs \<Longrightarrow> \<exists>y\<in>set ys. g x = Inr y"
  by (induction xs arbitrary: ys) (auto split: sum.splits)


lemma vendor_valid: "\<forall>i\<in>set [JStr ''**/vendor/**'']. validPattern i"
  by (simp add: validPattern_def MAX_PATTERN_LENGTH_def)

lemma Array_map_Inr_set:
  "Array_map g xs = Inr ys \<Longrightarrow> y \<in> set ys \<Longrightarrow> \<exists>x\<in>set xs. g x = Inr y"
  by (induction xs arbitrary: ys) (auto split: sum.splits)

lemma toRiskRule_severity:
  "toRiskRule c = Inr p \<Longrightarrow> suppliedSeverity c = Some s \<Longrightarrow>
   RiskRule.severity p = (if s = [] then ''medium'' else s)"
  by (cases c) (auto simp: suppliedSeverity_def or_default_def)

lemma files_mono_step:
  "analyzeRisk_file glob pats ignores result file = Inr r \<Longrightarrow> set (files result) \<subseteq> set (files r)"
  by (cases rule: analyzeRisk_file_cases) auto

lemma files_mono_loop:
  "analyzeRisk_loop glob pats ignores result fs = Inr r \<Longrightarrow> set (files result) \<subseteq> set (files r)"
proof (induction fs arbitrary: result)
  case Nil then show ?case by simp
next
  case (Cons g fs)
  from Cons.prems obtain r2 where r2: "analyzeRisk_file glob pats ignores result g = Inr r2"
    and rest: "analyzeRisk_loop glob pats ignores r2 fs = Inr r"
    by (auto split: sum.splits)
  show ?case using files_mono_step[OF r2] Cons.IH[OF rest] by blast
qed

lemma step_finding_present:
  assumes step: "analyzeRisk_file glob pats ignores result f = Inr r"
    and notign: "\<forall>i\<in>set ignores. minimatch glob (filename f) i \<noteq> Inr True"
    and some: "\<exists>p\<in>set pats. minimatch glob (filename f) (pattern p) = Inr True"
  shows "mkRiskFile f (filter (\<lambda>p. minimatch glob (filename f) (pattern p) = Inr True) pats)
           \<in> set (files r)"
  using step
proof (cases rule: analyzeRisk_file_cases)
  case ignored
  then show ?thesis using notign Array_some_True by fastforce
next
  case unmatched
  have "filter (\<lambda>p. minimatch glob (filename f) (pattern p) = Inr True) pats = []"
    using Array_filter_Inr[OF unmatched(2)] by simp
  then show ?thesis using some by (auto simp: filter_empty_conv)
next
  case (matched ms byCat)
  have "ms = filter (\<lambda>p. minimatch glob (filename f) (pattern p) = Inr True) pats"
    using matched(2) by (rule Array_filter_Inr)
  then show ?thesis using matched(5) by simp
qed

lemma loop_finding_present:
  assumes notign: "\<forall>i\<in>set ignores. minimatch glob (filename f) i \<noteq> Inr True"
    and some: "\<exists>p\<in>set pats. minimatch glob (filename f) (pattern p) = Inr True"
  shows "analyzeRisk_loop glob pats ignores result fs = Inr r \<Longrightarrow> f \<in> set fs \<Longrightarrow>
         mkRiskFile f (filter (\<lambda>p. minimatch glob (filename f) (pattern p) = Inr True) pats)
           \<in> set (files r)"
proof (induction fs arbitrary: result)
  case Nil then show ?case by simp
next
  case (Cons g fs)
  from Cons.prems(1) obtain r2 where r2: "analyzeRisk_file glob pats ignores result g = Inr r2"
    and rest: "analyzeRisk_loop glob pats ignores r2 fs = Inr r"
    by (auto split: sum.splits)
  show ?case
  proof (cases "f = g")
    case True
    then have "mkRiskFile f (filter (\<lambda>p. minimatch glob (filename f) (pattern p) = Inr True) pats)
                 \<in> set (files r2)"
      using step_finding_present[OF _ notign some] r2 by simp
    then show ?thesis using files_mono_loop[OF rest] by blast
  next
    case False
    then have "f \<in> set fs" using Cons.prems(2) by simp
    then show ?thesis using Cons.IH[OF rest] by simp
  qed
qed

lemma loop_findings_by_name:
  assumes run: "analyzeRisk_loop glob pats ignores emptyRiskReport fs = Inr r"
    and rf: "rf \<in> set (files r)"
  shows "riskFile.severity rf =
         getHighestSeverity (filter (\<lambda>p. minimatch glob (filename rf) (pattern p) = Inr True) pats)"
proof -
  from loop_findings[OF run] rf obtain g ms where
    "Array_filter (\<lambda>p. minimatch glob (filename g) (pattern p)) pats = Inr ms" "rf = mkRiskFile g ms"
    by (auto simp: emptyRiskReport_def)
  then show ?thesis using Array_filter_Inr by fastforce
qed






subsection \<open>The glob matcher on patterns without bracket expressions\<close>











section \<open>Claims about the risk analyzer\<close>

text \<open>
  C3.  Whenever the Risk Classifier returns a report, for any file list, custom rules and
  ignore patterns, the three counters add up to the number of findings in \<open>files\<close>, and
  each counter is the number of findings whose severity is that level.
\<close>

theorem risk_counts_partition:
  assumes "analyzeRisk glob fs opts = Inr r"
  shows "highRiskCount r + mediumRiskCount r + lowRiskCount r = length (files r) \<and>
         highRiskCount r = length (filter (\<lambda>rf. riskFile.severity rf = ''high'') (files r)) \<and>
         mediumRiskCount r = length (filter (\<lambda>rf. riskFile.severity rf = ''medium'') (files r)) \<and>
         lowRiskCount r = length (filter (\<lambda>rf. riskFile.severity rf = ''low'') (files r))"
proof -
  obtain custom where
    "analyzeRisk_loop glob (DEFAULT_RISK_PATTERNS @ custom) (ignorePatterns opts) emptyRiskReport fs = Inr r"
    using analyzeRisk_Inr[OF assms] by blast
  moreover have "countsOK emptyRiskReport" by (simp add: countsOK_def emptyRiskReport_def)
  ultimately have ok: "countsOK r" by (rule countsOK_loop[rotated])
  then show ?thesis using length_three_way[of "files r" riskFile.severity]
    by (simp add: countsOK_def)
qed

lemma exReport_run: "analyzeRisk matches exFiles exOptions = Inr exReport"
proof -
  have ig: "\<forall>i\<in>set [JStr ''**/vendor/**'']. validPattern i"
    by (simp add: validPattern_def MAX_PATTERN_LENGTH_def)
  note step = analyzeRisk_file_valid[OF ig DEFAULT_valid, of matches]
  have m1: "filter (\<lambda>p. matches ''.env.production'' (patternString (pattern p))) DEFAULT_RISK_PATTERNS
            = [rule ''**/.env*'' ''security'' ''high'' ''Environment configuration file'']"
    by (simp add: DEFAULT_RISK_PATTERNS_def rule_def matches_def)
  have m2: "filter (\<lambda>p. matches ''package-lock.json'' (patternString (pattern p))) DEFAULT_RISK_PATTERNS
            = [rule ''**/package-lock.json'' ''dependencies'' ''low'' ''Node.js lockfile'']"
    by (simp add: DEFAULT_RISK_PATTERNS_def rule_def matches_def)
  have m3: "matches ''vendor/config/settings.json'' ''**/vendor/**''"
    by (simp add: matches_def)
  have m4: "\<not> matches ''.env.production'' ''**/vendor/**''" "\<not> matches ''package-lock.json'' ''**/vendor/**''"
    by (simp_all add: matches_def)
  show ?thesis
    unfolding analyzeRisk_def exFiles_def exOptions_def
    by (simp add: step m1 m2 m3 m4 rule_def emptyRiskReport_def
        mkRiskFile_def getHighestSeverity_def js_gt_def severityOrder_def Set_spread_def
        countSeverity_def pushCategory_def objectPrototypeKeys_def exReport_def)
qed

theorem risk_counts_partition_witness:
  "analyzeRisk matches exFiles exOptions = Inr exReport \<and>
   highRiskCount exReport + mediumRiskCount exReport + lowRiskCount exReport = length (files exReport) \<and>
   highRiskCount exReport = length (filter (\<lambda>rf. riskFile.severity rf = ''high'') (files exReport)) \<and>
   mediumRiskCount exReport = length (filter (\<lambda>rf. riskFile.severity rf = ''medium'') (files exReport)) \<and>
   lowRiskCount exReport = length (filter (\<lambda>rf. riskFile.severity rf = ''low'') (files exReport))"
  using risk_counts_partition[OF exReport_run] exReport_run by simp

lemma exPayment_default:
  "filter (\<lambda>p. matches ''src/payments/checkout.js'' (patternString (pattern p))) DEFAULT_RISK_PATTERNS = []"
  by (simp add: DEFAULT_RISK_PATTERNS_def rule_def matches_def)

lemma exPayment_custom: "matches ''src/payments/checkout.js'' ''**/payments/**''"
  by (simp add: matches_def)

lemma exPayment_rules_valid:
  "\<forall>p\<in>set (DEFAULT_RISK_PATTERNS @
      [\<lparr>pattern = JStr ''**/payments/**'', category = ''financial'', severity = s,
        message = ''Payment code''\<rparr>]). validPattern (pattern p)"
  using DEFAULT_valid by (simp add: validPattern_def MAX_PATTERN_LENGTH_def)

lemma exEmptySeverity_run:
  "analyzeRisk matches [exPaymentFile] exEmptySeverityOptions = Inr exEmptySeverityReport"
proof -
  have ig: "\<forall>i\<in>set ([]::jsval list). validPattern i" by simp
  show ?thesis
    using exPayment_default exPayment_custom
    by (simp add: analyzeRisk_def exEmptySeverityOptions_def
        analyzeRisk_file_valid[OF ig exPayment_rules_valid]
        exPaymentFile_def or_default_def
        emptyRiskReport_def mkRiskFile_def getHighestSeverity_def js_gt_def severityOrder_def
        Set_spread_def countSeverity_def pushCategory_def objectPrototypeKeys_def
        exEmptySeverityReport_def)
qed

lemma exCritical_run:
  "analyzeRisk matches [exPaymentFile] exCriticalOptions = Inr exPaymentReport"
proof -
  have ig: "\<forall>i\<in>set ([]::jsval list). validPattern i" by simp
  show ?thesis
    using exPayment_default exPayment_custom
    by (simp add: analyzeRisk_def exCriticalOptions_def
        analyzeRisk_file_valid[OF ig exPayment_rules_valid]
        exPaymentFile_def or_default_def
        emptyRiskReport_def mkRiskFile_def getHighestSeverity_def js_gt_def severityOrder_def
        Set_spread_def countSeverity_def pushCategory_def objectPrototypeKeys_def
        exPaymentReport_def)
qed

text \<open>
  C10, as stated, fails for the empty string, which is a severity string outside high,
  medium and low: \<open>p.severity || 'medium'\<close> replaces it when the rule list is built.  The
  only rule that matches \<open>src/payments/checkout.js\<close> below is the custom rule with
  severity \<open>''\<close>; the finding is \<open>medium\<close> and is counted in \<open>mediumRiskCount\<close>.
\<close>

theorem empty_severity_counts_medium_counterexample:
  "map suppliedSeverity (customPatterns exEmptySeverityOptions) = [Some []] \<and>
   filter (\<lambda>p. matches (filename exPaymentFile) (patternString (pattern p))) DEFAULT_RISK_PATTERNS = [] \<and>
   analyzeRisk matches [exPaymentFile] exEmptySeverityOptions = Inr exEmptySeverityReport \<and>
   map (\<lambda>rf. (filename rf, riskFile.severity rf)) (files exEmptySeverityReport)
     = [(''src/payments/checkout.js'', ''medium'')] \<and>
   mediumRiskCount exEmptySeverityReport = 1 \<and> lowRiskCount exEmptySeverityReport = 0"
  using exEmptySeverity_run exPayment_default
  by (simp add: exEmptySeverityOptions_def suppliedSeverity_def exPaymentFile_def
      exEmptySeverityReport_def)

text \<open>
  C10, amended.  Whenever the Risk Classifier returns a report: for every file of the run
  that no ignore pattern matches, that at least one rule matches, and all of whose matching
  rules carry a severity outside high, medium and low (a default rule as it stands in the
  table, a custom rule as a non-empty \<open>severity\<close> string of the element of
  \<open>customPatterns\<close>), the report has a finding for the file, every finding of the report
  for that file name has severity \<open>low\<close>, and \<open>lowRiskCount\<close> is the number of
  findings of severity \<open>low\<close>, so that it counts them.  For every list of matched rules
  with such severities the fold \<open>getHighestSeverity\<close> returns \<open>low\<close>, the value it
  starts from, and the counting statement increments \<open>lowRiskCount\<close>.
\<close>

theorem unknown_severity_counts_low:
  assumes run: "analyzeRisk glob fs opts = Inr r"
    and mem: "f \<in> set fs"
    and notign: "\<forall>i\<in>set (ignorePatterns opts). minimatch glob (filename f) i \<noteq> Inr True"
    and some: "(\<exists>p\<in>set DEFAULT_RISK_PATTERNS. minimatch glob (filename f) (pattern p) = Inr True) \<or>
               (\<exists>c\<in>set (customPatterns opts). \<exists>p. toRiskRule c = Inr p \<and>
                   minimatch glob (filename f) (pattern p) = Inr True)"
    and default: "\<forall>p\<in>set DEFAULT_RISK_PATTERNS. minimatch glob (filename f) (pattern p) = Inr True \<longrightarrow>
                   RiskRule.severity p \<notin> {''high'', ''medium'', ''low''}"
    and custom: "\<forall>c\<in>set (customPatterns opts). \<forall>p. toRiskRule c = Inr p \<longrightarrow>
                   minimatch glob (filename f) (pattern p) = Inr True \<longrightarrow>
                   (\<exists>s. suppliedSeverity c = Some s \<and> s \<noteq> [] \<and> s \<notin> {''high'', ''medium'', ''low''})"
  shows "(\<exists>rf\<in>set (files r). filename rf = filename f) \<and>
         (\<forall>rf\<in>set (files r). filename rf = filename f \<longrightarrow> riskFile.severity rf = ''low'') \<and>
         lowRiskCount r = length (filter (\<lambda>rf. riskFile.severity rf = ''low'') (files r)) \<and>
         ((\<forall>p\<in>set ms. RiskRule.severity p \<notin> {''high'', ''medium'', ''low''}) \<longrightarrow>
            getHighestSeverity ms = ''low'' \<and>
            lowRiskCount (countSeverity (getHighestSeverity ms) res) = lowRiskCount res + 1)"
proof -
  have fold: "getHighestSeverity ms = ''low'' \<and>
              lowRiskCount (countSeverity (getHighestSeverity ms) res) = lowRiskCount res + 1"
    if "\<forall>p\<in>set ms. RiskRule.severity p \<notin> {''high'', ''medium'', ''low''}"
    using getHighestSeverity_unknown[of ms] that by (simp add: levels_def countSeverity_def)
  obtain cs where cs: "Array_map toRiskRule (customPatterns opts) = Inr cs"
    and loop: "analyzeRisk_loop glob (DEFAULT_RISK_PATTERNS @ cs) (ignorePatterns opts) emptyRiskReport fs = Inr r"
    using analyzeRisk_Inr[OF run] by blast
  let ?pats = "DEFAULT_RISK_PATTERNS @ cs"
  let ?ms = "filter (\<lambda>p. minimatch glob (filename f) (pattern p) = Inr True) ?pats"
  have some': "\<exists>p\<in>set ?pats. minimatch glob (filename f) (pattern p) = Inr True"
    using some
  proof
    assume "\<exists>p\<in>set DEFAULT_RISK_PATTERNS. minimatch glob (filename f) (pattern p) = Inr True"
    then show ?thesis by auto
  next
    assume "\<exists>c\<in>set (customPatterns opts). \<exists>p. toRiskRule c = Inr p \<and>
              minimatch glob (filename f) (pattern p) = Inr True"
    then obtain c p where c: "c \<in> set (customPatterns opts)" "toRiskRule c = Inr p"
      "minimatch glob (filename f) (pattern p) = Inr True" by blast
    from Array_map_Inr_mem[OF cs c(1)] c(2) have "p \<in> set cs" by auto
    then show ?thesis using c(3) by auto
  qed
  have unknown: "\<forall>p\<in>set ?ms. RiskRule.severity p \<notin> levels"
  proof
    fix p assume "p \<in> set ?ms"
    then have p: "p \<in> set ?pats" "minimatch glob (filename f) (pattern p) = Inr True" by auto
    show "RiskRule.severity p \<notin> levels"
    proof (cases "p \<in> set DEFAULT_RISK_PATTERNS")
      case True
      then show ?thesis using default p(2) by (simp add: levels_def)
    next
      case False
      then have "p \<in> set cs" using p(1) by simp
      from Array_map_Inr_set[OF cs this] obtain c where
        c: "c \<in> set (customPatterns opts)" "toRiskRule c = Inr p" by blast
      with custom p(2) obtain s where
        s: "suppliedSeverity c = Some s" "s \<noteq> []" "s \<notin> {''high'', ''medium'', ''low''}" by blast
      from toRiskRule_severity[OF c(2) s(1)] s(2) have "RiskRule.severity p = s" by simp
      then show ?thesis using s(3) by (simp add: levels_def)
    qed
  qed
  then have low: "getHighestSeverity ?ms = ''low''" by (rule getHighestSeverity_unknown)
  have "mkRiskFile f ?ms \<in> set (files r)"
    using loop_finding_present[OF notign some' loop mem] .
  then have ex: "\<exists>rf\<in>set (files r). filename rf = filename f"
    by (rule bexI[rotated]) simp
  have all: "\<forall>rf\<in>set (files r). filename rf = filename f \<longrightarrow> riskFile.severity rf = ''low''"
    using loop_findings_by_name[OF loop] low by simp
  have "countsOK emptyRiskReport" by (simp add: countsOK_def emptyRiskReport_def)
  then have "countsOK r" using loop by (rule countsOK_loop)
  then have "lowRiskCount r = length (filter (\<lambda>rf. riskFile.severity rf = ''low'') (files r))"
    by (simp add: countsOK_def)
  then show ?thesis using ex all fold by blast
qed

theorem unknown_severity_counts_low_witness:
  "analyzeRisk matches [exPaymentFile] exCriticalOptions = Inr exPaymentReport \<and>
   map suppliedSeverity (customPatterns exCriticalOptions) = [Some ''critical''] \<and>
   map (\<lambda>rf. (filename rf, riskFile.severity rf)) (files exPaymentReport)
     = [(''src/payments/checkout.js'', ''low'')] \<and>
   lowRiskCount exPaymentReport = 1 \<and>
   getHighestSeverity [rule ''**/payments/**'' ''financial'' ''critical'' ''Payment code''] = ''low''"
proof -
  have fn: "filename exPaymentFile = ''src/payments/checkout.js''"
    by (simp add: exPaymentFile_def)
  have nodefault: "\<forall>p\<in>set DEFAULT_RISK_PATTERNS.
      minimatch matches (filename exPaymentFile) (pattern p) \<noteq> Inr True"
  proof
    fix p assume p: "p \<in> set DEFAULT_RISK_PATTERNS"
    then have "p \<notin> set (filter (\<lambda>p. matches ''src/payments/checkout.js'' (patternString (pattern p)))
                           DEFAULT_RISK_PATTERNS)"
      by (simp only: exPayment_default list.set empty_iff not_False_eq_True)
    then have "\<not> matches ''src/payments/checkout.js'' (patternString (pattern p))" using p by simp
    then show "minimatch matches (filename exPaymentFile) (pattern p) \<noteq> Inr True"
      using DEFAULT_valid p by (simp add: minimatch_valid fn)
  qed
  have custom: "minimatch matches (filename exPaymentFile) (JStr ''**/payments/**'') = Inr True"
    using exPayment_custom by (simp add: minimatch_def MAX_PATTERN_LENGTH_def fn)
  have "(\<exists>rf\<in>set (files exPaymentReport). filename rf = filename exPaymentFile) \<and>
        (\<forall>rf\<in>set (files exPaymentReport). filename rf = filename exPaymentFile \<longrightarrow>
           riskFile.severity rf = ''low'') \<and>
        lowRiskCount exPaymentReport =
          length (filter (\<lambda>rf. riskFile.severity rf = ''low'') (files exPaymentReport)) \<and>
        ((\<forall>p\<in>set [rule ''**/payments/**'' ''financial'' ''critical'' ''Payment code''].
             RiskRule.severity p \<notin> {''high'', ''medium'', ''low''}) \<longrightarrow>
         getHighestSeverity [rule ''**/payments/**'' ''financial'' ''critical'' ''Payment code''] = ''low'' \<and>
         lowRiskCount (countSeverity
             (getHighestSeverity [rule ''**/payments/**'' ''financial'' ''critical'' ''Payment code''])
             emptyRiskReport) = lowRiskCount emptyRiskReport + 1)"
    using nodefault custom
    by (intro unknown_severity_counts_low[OF exCritical_run])
       (auto simp: exCriticalOptions_def suppliedSeverity_def)
  then show ?thesis using exCritical_run
    by (simp add: exPaymentReport_def exCriticalOptions_def suppliedSeverity_def rule_def)
qed

text \<open>
  C2.  For every file list and every rule list: a run over a permutation of the rules returns
  a report too, with the same findings carrying the same severities; and the severity of
  each finding is the result of the severity fold over the rules matching its file, which
  is the maximum in the order high > medium > low when those rules carry the three levels.
\<close>

theorem severity_is_max_and_order_independent:
  assumes perm: "mset pats' = mset pats"
    and run: "analyzeRisk_loop glob pats ignores emptyRiskReport fs = Inr r"
  shows "(\<exists>r'. analyzeRisk_loop glob pats' ignores emptyRiskReport fs = Inr r' \<and>
              map (\<lambda>rf. (filename rf, riskFile.severity rf)) (files r') =
              map (\<lambda>rf. (filename rf, riskFile.severity rf)) (files r)) \<and>
         (\<forall>rf\<in>set (files r). \<exists>f\<in>set fs. \<exists>ms. ms \<noteq> [] \<and>
              Array_filter (\<lambda>p. minimatch glob (filename f) (pattern p)) pats = Inr ms \<and>
              filename rf = filename f \<and>
              riskFile.severity rf = getHighestSeverity ms \<and>
              ((\<forall>p\<in>set ms. RiskRule.severity p \<in> {''high'', ''medium'', ''low''}) \<longrightarrow>
                 severityOrder (riskFile.severity rf) =
                   Some (Max ((\<lambda>p. the (severityOrder (RiskRule.severity p))) ` set ms))))"
proof
  obtain r' where "analyzeRisk_loop glob pats' ignores emptyRiskReport fs = Inr r'"
      "sevView r' = sevView r"
    using sevView_loop[OF perm _ run, of emptyRiskReport] by blast
  then show "\<exists>r'. analyzeRisk_loop glob pats' ignores emptyRiskReport fs = Inr r' \<and>
              map (\<lambda>rf. (filename rf, riskFile.severity rf)) (files r') =
              map (\<lambda>rf. (filename rf, riskFile.severity rf)) (files r)"
    by (auto simp: sevView_def)
next
  show "\<forall>rf\<in>set (files r). \<exists>f\<in>set fs. \<exists>ms. ms \<noteq> [] \<and>
              Array_filter (\<lambda>p. minimatch glob (filename f) (pattern p)) pats = Inr ms \<and>
              filename rf = filename f \<and>
              riskFile.severity rf = getHighestSeverity ms \<and>
              ((\<forall>p\<in>set ms. RiskRule.severity p \<in> {''high'', ''medium'', ''low''}) \<longrightarrow>
                 severityOrder (riskFile.severity rf) =
                   Some (Max ((\<lambda>p. the (severityOrder (RiskRule.severity p))) ` set ms)))"
  proof
    fix rf assume "rf \<in> set (files r)"
    then obtain f ms where f: "f \<in> set fs" "ms \<noteq> []"
        "Array_filter (\<lambda>p. minimatch glob (filename f) (pattern p)) pats = Inr ms"
        "rf = mkRiskFile f ms"
      using loop_findings[OF run] by (auto simp: emptyRiskReport_def)
    have "(\<forall>p\<in>set ms. RiskRule.severity p \<in> {''high'', ''medium'', ''low''}) \<longrightarrow>
            severityOrder (getHighestSeverity ms) =
              Some (Max ((\<lambda>p. the (severityOrder (RiskRule.severity p))) ` set ms))"
      using getHighestSeverity_Max[OF f(2)] by (simp add: levels_def)
    then show "\<exists>f\<in>set fs. \<exists>ms. ms \<noteq> [] \<and>
              Array_filter (\<lambda>p. minimatch glob (filename f) (pattern p)) pats = Inr ms \<and>
              filename rf = filename f \<and>
              riskFile.severity rf = getHighestSeverity ms \<and>
              ((\<forall>p\<in>set ms. RiskRule.severity p \<in> {''high'', ''medium'', ''low''}) \<longrightarrow>
                 severityOrder (riskFile.severity rf) =
                   Some (Max ((\<lambda>p. the (severityOrder (RiskRule.severity p))) ` set ms)))"
      using f by (intro bexI[of _ f] exI[of _ ms]) simp_all
  qed
qed

lemma exSql_run:
  "analyzeRisk_loop matches exSqlRules [] emptyRiskReport exSqlFiles =
   Inr \<lparr>files =
        [\<lparr>filename = ''migrations/20240101_add_users.sql'', status = ''added'', additions = 50,
          deletions = 0, severity = ''high'', categories = [''database''],
          messages = [''SQL file'', ''Database migration''],
          patterns = [JStr ''**/*.sql'', JStr ''**/migrations/**'']\<rparr>],
      highRiskCount = 1, mediumRiskCount = 0, lowRiskCount = 0,
      byCategory = [(''database'', [''migrations/20240101_add_users.sql''])]\<rparr>"
proof -
  have ig: "\<forall>i\<in>set ([]::jsval list). validPattern i" by simp
  have pv: "\<forall>p\<in>set exSqlRules. validPattern (pattern p)"
    by (simp add: exSqlRules_def rule_def validPattern_def MAX_PATTERN_LENGTH_def)
  have m: "filter (\<lambda>p. matches ''migrations/20240101_add_users.sql'' (patternString (pattern p))) exSqlRules
      = [rule ''**/*.sql'' ''database'' ''medium'' ''SQL file'',
         rule ''**/migrations/**'' ''database'' ''high'' ''Database migration'']"
    by (simp add: exSqlRules_def rule_def matches_def)
  show ?thesis
    by (simp add: analyzeRisk_file_valid[OF ig pv] m exSqlFiles_def rule_def
        emptyRiskReport_def mkRiskFile_def getHighestSeverity_def js_gt_def
        severityOrder_def Set_spread_def countSeverity_def pushCategory_def
        objectPrototypeKeys_def)
qed

theorem severity_is_max_and_order_independent_witness:
  "mset (rev exSqlRules) = mset exSqlRules \<and>
   (\<exists>r'. analyzeRisk_loop matches (rev exSqlRules) [] emptyRiskReport exSqlFiles = Inr r' \<and>
         map (\<lambda>rf. (filename rf, riskFile.severity rf)) (files r') =
           [(''migrations/20240101_add_users.sql'', ''high'')])"
proof -
  have perm: "mset (rev exSqlRules) = mset exSqlRules" by simp
  from severity_is_max_and_order_independent[OF perm exSql_run]
  show ?thesis by simp
qed




section \<open>Lemmas about the diff parser\<close>

lemma parseDiff_part_apply:
  "parseDiff_part p m fname =
     (if String_trim p \<noteq> [] \<and> fileMatch p = Some fname \<and> fname \<noteq> ''__proto__''
      then Some (addedLinesOf p) else m fname)"
  by (auto simp: parseDiff_part_def split: option.splits)

lemma fold_parseDiff_part:
  "fold parseDiff_part parts m fname =
     (case filter (\<lambda>p. String_trim p \<noteq> [] \<and> fileMatch p = Some fname) parts of
        [] \<Rightarrow> m fname
      | p # ps \<Rightarrow> if fname = ''__proto__'' then m fname else Some (addedLinesOf (last (p # ps))))"
proof (induction parts rule: rev_induct)
  case Nil
  then show ?case by simp
next
  case (snoc p parts)
  have step: "fold parseDiff_part (parts @ [p]) m fname =
      (if String_trim p \<noteq> [] \<and> fileMatch p = Some fname \<and> fname \<noteq> ''__proto__''
       then Some (addedLinesOf p) else fold parseDiff_part parts m fname)"
    by (simp only: fold_append fold_simps comp_apply parseDiff_part_apply id_apply)
  show ?case
    unfolding step snoc.IH
    by (cases "filter (\<lambda>p. String_trim p \<noteq> [] \<and> fileMatch p = Some fname) parts") auto
qed

lemma search_Some:
  "search r prev s = Some (i, n) \<Longrightarrow>
   i \<le> length s \<and> (\<exists>ns. lens r (prevAt prev s i) (drop i s) = n # ns)"
proof (induction s arbitrary: prev i)
  case Nil
  then show ?case by (auto simp: prevAt_def split: list.splits)
next
  case (Cons c cs)
  show ?case
  proof (cases "lens r prev (c # cs)")
    case Nil
    with Cons.prems obtain j where j: "search r (Some c) cs = Some (j, n)" "i = Suc j"
      by auto
    from Cons.IH[OF j(1)] have "j \<le> length cs" "\<exists>ns. lens r (prevAt (Some c) cs j) (drop j cs) = n # ns"
      by auto
    moreover have "prevAt prev (c # cs) (Suc j) = prevAt (Some c) cs j"
      by (cases j) (auto simp: prevAt_def nextChar_def)
    ultimately show ?thesis using j(2) by simp
  next
    case (Cons m ms)
    with Cons.prems show ?thesis by (auto simp: prevAt_def)
  qed
qed

lemma lens_Seq_mem:
  "n \<in> set (lens (Seq a b) prev s) \<longleftrightarrow>
   (\<exists>x\<in>set (lens a prev s). \<exists>y\<in>set (lens b (prevAt prev s x) (drop x s)). n = x + y)"
  by auto

lemma lens_Lit_mem:
  "n \<in> set (lens (Lit w) prev s) \<longleftrightarrow> n = length w \<and> take (length w) s = w"
  by (auto simp: litMatches_def)

lemma lens_PlusLazy_mem:
  "n \<in> set (lens (PlusLazy P) prev s) \<longleftrightarrow> 0 < n \<and> n \<le> length (takeWhile P s)"
  by auto

lemma lens_lit_lazy_lit:
  assumes "n \<in> set (lens (seqs [Lit a, PlusLazy P, Lit b]) prev t)"
  shows "\<exists>k. n = length a + k + length b \<and> 0 < k \<and> take (length a) t = a \<and>
             k \<le> length (takeWhile P (drop (length a) t)) \<and>
             take (length b) (drop (length a + k) t) = b"
proof -
  have "n \<in> set (lens (Seq (Lit a) (Seq (PlusLazy P) (Seq (Lit b) (Lit [])))) prev t)"
    using assms by (simp only: seqs_def foldr.simps comp_apply id_apply)
  then obtain x k u v where n: "n = x + (k + (u + v))"
      and x: "x = length a" "take (length a) t = a"
      and k: "0 < k" "k \<le> length (takeWhile P (drop x t))"
      and u: "u = length b" "take (length b) (drop k (drop x t)) = b"
      and v: "v = length ([]::string)"
    unfolding lens_Seq_mem Bex_def lens_Lit_mem lens_PlusLazy_mem by blast
  show ?thesis
    using n x k u v by (intro exI[of _ k]) (simp add: add.commute)
qed

lemma split_three:
  assumes "take la t = a" and "take lb (drop (la + k) t) = b"
  shows "t = a @ take k (drop la t) @ b @ drop (la + k + lb) t"
proof -
  have 1: "t = take la t @ drop la t"
    by (rule append_take_drop_id[symmetric])
  have 2: "drop la t = take k (drop la t) @ drop (la + k) t"
    using append_take_drop_id[of k "drop la t", symmetric] by (simp add: add.commute)
  have 3: "drop (la + k) t = take lb (drop (la + k) t) @ drop (la + k + lb) t"
    using append_take_drop_id[of lb "drop (la + k) t", symmetric] by (simp add: add.commute)
  show ?thesis using 1 2 3 assms by metis
qed

lemma fileMatch_Some:
  assumes "fileMatch part = Some fname"
  shows "\<exists>pre post. part = pre @ ''a/'' @ fname @ '' b/'' @ post \<and> fname \<noteq> [] \<and>
                    (\<forall>c\<in>set fname. \<not> isLineTerminator c)"
proof -
  from assms obtain i n where m: "search fileHeaderRegex None part = Some (i, n)"
      and fname: "fname = take (n - 5) (drop (i + 2) part)"
    by (auto simp: fileMatch_def String_match_def split: option.splits)
  let ?t = "drop i part"
  let ?P = "\<lambda>c. \<not> isLineTerminator c"
  from search_Some[OF m] obtain ns where
      "lens fileHeaderRegex (prevAt None part i) ?t = n # ns" by blast
  then have "n \<in> set (lens (seqs [Lit ''a/'', PlusLazy ?P, Lit '' b/'']) (prevAt None part i) ?t)"
    by (simp add: fileHeaderRegex_def)
  from lens_lit_lazy_lit[OF this] obtain k where k: "n = length ''a/'' + k + length '' b/''" "0 < k"
      "take (length ''a/'') ?t = ''a/''"
      "k \<le> length (takeWhile ?P (drop (length ''a/'') ?t))"
      "take (length '' b/'') (drop (length ''a/'' + k) ?t) = '' b/''"
    by blast
  have fn: "fname = take k (drop (length ''a/'') ?t)" using fname k(1) by (simp add: add.commute)
  have t: "?t = ''a/'' @ fname @ '' b/'' @ drop (length ''a/'' + k + length '' b/'') ?t"
    unfolding fn by (rule split_three[OF k(3) k(5)])
  have "part = take i part @ ?t" by simp
  then have part: "part = take i part @ ''a/'' @ fname @ '' b/'' @ drop (length ''a/'' + k + length '' b/'') ?t"
    using t by metis
  have "fname = take k (takeWhile ?P (drop (length ''a/'') ?t))"
    unfolding fn using k(4) by (metis takeWhile_eq_take take_take min.absorb1)
  then have ok: "\<forall>c\<in>set fname. \<not> isLineTerminator c"
    by (metis in_set_takeD set_takeWhileD)
  have "length fname = k" unfolding fn using k(4) length_takeWhile_le[of ?P "drop (length ''a/'') ?t"]
    by simp
  then have "fname \<noteq> []" using k(2) by auto
  then show ?thesis using part ok by blast
qed

lemma search_None:
  "search r prev s = None \<Longrightarrow> j \<le> length s \<Longrightarrow> lens r (prevAt prev s j) (drop j s) = []"
proof (induction s arbitrary: prev j)
  case Nil
  then show ?case by (auto simp: prevAt_def split: list.splits)
next
  case (Cons c cs)
  from Cons.prems(1) have here: "lens r prev (c # cs) = []" and rest: "search r (Some c) cs = None"
    by (auto split: list.splits)
  show ?case
  proof (cases j)
    case 0
    then show ?thesis using here by (simp add: prevAt_def)
  next
    case (Suc k)
    then have "k \<le> length cs" using Cons.prems(2) by simp
    from Cons.IH[OF rest this] have "lens r (prevAt (Some c) cs k) (drop k cs) = []" .
    moreover have "prevAt prev (c # cs) (Suc k) = prevAt (Some c) cs k"
      by (cases k) (auto simp: prevAt_def nextChar_def)
    ultimately show ?thesis using Suc by simp
  qed
qed

lemma search_Some_least:
  "search r prev s = Some (i, n) \<Longrightarrow> j < i \<Longrightarrow> lens r (prevAt prev s j) (drop j s) = []"
proof (induction s arbitrary: prev i j)
  case Nil
  then show ?case by (auto split: list.splits)
next
  case (Cons c cs)
  show ?case
  proof (cases "lens r prev (c # cs)")
    case Nil
    with Cons.prems(1) obtain i' where i': "search r (Some c) cs = Some (i', n)" "i = Suc i'"
      by auto
    show ?thesis
    proof (cases j)
      case 0
      then show ?thesis using Nil by (simp add: prevAt_def)
    next
      case (Suc k)
      then have "k < i'" using Cons.prems(2) i'(2) by simp
      from Cons.IH[OF i'(1) this] have "lens r (prevAt (Some c) cs k) (drop k cs) = []" .
      moreover have "prevAt prev (c # cs) (Suc k) = prevAt (Some c) cs k"
        by (cases k) (auto simp: prevAt_def nextChar_def)
      ultimately show ?thesis using Suc by simp
    qed
  next
    case (Cons m ms)
    with Cons.prems show ?thesis by auto
  qed
qed

lemma lens_lit_lazy_lit_eq:
  "lens (seqs [Lit a, PlusLazy P, Lit b]) prev t =
     (if take (length a) t = a
      then map (\<lambda>k. length a + (k + length b))
             (filter (\<lambda>k. take (length b) (drop (length a + k) t) = b)
                [1..<Suc (length (takeWhile P (drop (length a) t)))])
      else [])"
proof -
  have inner: "concat (map (\<lambda>k. map ((+) k) (if take (length b) (drop (k + length a) t) = b then [length b] else [])) ks)
      = map (\<lambda>k. k + length b) (filter (\<lambda>k. take (length b) (drop (length a + k) t) = b) ks)" for ks
    by (induction ks) (auto simp: add.commute)
  show ?thesis
    by (simp add: seqs_def litMatches_def inner add.commute add.left_commute comp_def)
qed

lemma hd_filter_upt_least:
  assumes "filter Q [m..<n] = k # ks" and "m \<le> j" and "j < n" and "Q j"
  shows "k \<le> j"
proof -
  have "sorted (filter Q [m..<n])" by (simp add: sorted_wrt_filter)
  moreover have "j \<in> set (filter Q [m..<n])" using assms(2-4) by simp
  ultimately show ?thesis using assms(1) by auto
qed


lemma lit_lazy_lit_candidate:
  assumes t: "t = a @ x @ b @ post" and x: "x \<noteq> []" "\<forall>c\<in>set x. P c"
  shows "\<exists>k ks. k \<le> length x \<and> 0 < k \<and>
           lens (seqs [Lit a, PlusLazy P, Lit b]) prev t =
             map (\<lambda>k. length a + (k + length b)) (k # ks)"
proof -
  define Q where "Q = (\<lambda>k. take (length b) (drop (length a + k) t) = b)"
  define m where "m = Suc (length (takeWhile P (drop (length a) t)))"
  define L where "L = filter Q [1..<m]"
  have ta: "take (length a) t = a" using t by simp
  have d: "drop (length a) t = x @ b @ post" using t by simp
  have "takeWhile P (x @ b @ post) = x @ takeWhile P (b @ post)"
    using x(2) by (simp add: takeWhile_append2)
  then have len: "length x < m" unfolding d m_def by simp
  have "drop (length a + length x) t = b @ post" using t by simp
  then have Q: "Q (length x)" by (simp add: Q_def)
  have pos: "1 \<le> length x" using x(1) by (simp add: Suc_le_eq)
  have mem: "length x \<in> set L" using len Q pos by (simp add: L_def)
  then have "L \<noteq> []" by auto
  then obtain k ks where kks: "L = k # ks" by (auto simp: neq_Nil_conv)
  have "k \<le> length x"
    using kks[unfolded L_def] pos len Q by (rule hd_filter_upt_least)
  moreover have "k \<in> set L" using kks by simp
  then have "0 < k" by (simp add: L_def)
  moreover have "lens (seqs [Lit a, PlusLazy P, Lit b]) prev t =
      map (\<lambda>k. length a + (k + length b)) L"
    unfolding lens_lit_lazy_lit_eq L_def Q_def m_def using ta by simp
  ultimately show ?thesis using kks by blast
qed

lemma fileMatch_None:
  assumes "fileMatch part = None"
  shows "\<not> (\<exists>pre x post. part = pre @ ''a/'' @ x @ '' b/'' @ post \<and> x \<noteq> [] \<and>
                          (\<forall>c\<in>set x. \<not> isLineTerminator c))"
proof
  assume "\<exists>pre x post. part = pre @ ''a/'' @ x @ '' b/'' @ post \<and> x \<noteq> [] \<and>
                          (\<forall>c\<in>set x. \<not> isLineTerminator c)"
  then obtain pre x post where d: "part = pre @ ''a/'' @ x @ '' b/'' @ post" "x \<noteq> []"
      "\<forall>c\<in>set x. \<not> isLineTerminator c" by blast
  have none: "search fileHeaderRegex None part = None"
    using assms by (auto simp: fileMatch_def String_match_def split: option.splits)
  have "length pre \<le> length part" using d(1) by simp
  from search_None[OF none this]
  have e: "lens fileHeaderRegex (prevAt None part (length pre)) (drop (length pre) part) = []" .
  have dj: "drop (length pre) part = ''a/'' @ x @ '' b/'' @ post" using d(1) by simp
  from lit_lazy_lit_candidate[OF dj d(2,3), of "prevAt None part (length pre)"]
  show False using e unfolding fileHeaderRegex_def by auto
qed

lemma fileMatch_Some_least:
  assumes fm: "fileMatch part = Some fname"
    and d: "part = pre' @ ''a/'' @ x @ '' b/'' @ post'" "x \<noteq> []" "\<forall>c\<in>set x. \<not> isLineTerminator c"
    and i: "search fileHeaderRegex None part = Some (i, n)"
  shows "i \<le> length pre' \<and> (length pre' = i \<longrightarrow> length fname \<le> length x)"
proof -
  have dj: "drop (length pre') part = ''a/'' @ x @ '' b/'' @ post'" using d(1) by simp
  from lit_lazy_lit_candidate[OF dj d(2,3), of "prevAt None part (length pre')"]
  obtain k ks where k: "k \<le> length x" "0 < k"
      "lens fileHeaderRegex (prevAt None part (length pre')) (drop (length pre') part)
         = map (\<lambda>k. length ''a/'' + (k + length '' b/'')) (k # ks)"
    unfolding fileHeaderRegex_def by blast
  have le: "i \<le> length pre'"
  proof (rule ccontr)
    assume "\<not> i \<le> length pre'"
    then have "length pre' < i" by simp
    from search_Some_least[OF i this] show False using k(3) by simp
  qed
  moreover have "length fname \<le> length x" if eq: "length pre' = i"
  proof -
    from search_Some[OF i] obtain ns where
      "lens fileHeaderRegex (prevAt None part i) (drop i part) = n # ns" by blast
    then have n: "n = length ''a/'' + (k + length '' b/'')" using k(3) eq by simp
    from fm i have "fname = take (n - 5) (drop (i + 2) part)"
      by (auto simp: fileMatch_def String_match_def split: option.splits)
    then have "length fname \<le> k" using n by simp
    then show ?thesis using k(1) by simp
  qed
  ultimately show ?thesis by blast
qed


lemma fileMatch_Some_exact:
  assumes "fileMatch part = Some fname"
  shows "\<exists>pre post. part = pre @ ''a/'' @ fname @ '' b/'' @ post \<and> fname \<noteq> [] \<and>
           (\<forall>c\<in>set fname. \<not> isLineTerminator c) \<and>
           (\<forall>pre' x post'. part = pre' @ ''a/'' @ x @ '' b/'' @ post' \<and> x \<noteq> [] \<and>
                 (\<forall>c\<in>set x. \<not> isLineTerminator c) \<longrightarrow>
               length pre \<le> length pre' \<and> (length pre' = length pre \<longrightarrow> length fname \<le> length x))"
proof -
  from assms obtain i n where m: "search fileHeaderRegex None part = Some (i, n)"
      and fname: "fname = take (n - 5) (drop (i + 2) part)"
    by (auto simp: fileMatch_def String_match_def split: option.splits)
  let ?t = "drop i part"
  let ?P = "\<lambda>c. \<not> isLineTerminator c"
  from search_Some[OF m] obtain ns where i: "i \<le> length part" and
      "lens fileHeaderRegex (prevAt None part i) ?t = n # ns" by blast
  then have "n \<in> set (lens (seqs [Lit ''a/'', PlusLazy ?P, Lit '' b/'']) (prevAt None part i) ?t)"
    by (simp add: fileHeaderRegex_def)
  from lens_lit_lazy_lit[OF this] obtain k where k: "n = length ''a/'' + k + length '' b/''" "0 < k"
      "take (length ''a/'') ?t = ''a/''"
      "k \<le> length (takeWhile ?P (drop (length ''a/'') ?t))"
      "take (length '' b/'') (drop (length ''a/'' + k) ?t) = '' b/''"
    by blast
  have fn: "fname = take k (drop (length ''a/'') ?t)" using fname k(1) by (simp add: add.commute)
  have t: "?t = ''a/'' @ fname @ '' b/'' @ drop (length ''a/'' + k + length '' b/'') ?t"
    unfolding fn by (rule split_three[OF k(3) k(5)])
  have "part = take i part @ ?t" by simp
  then have part: "part = take i part @ ''a/'' @ fname @ '' b/'' @ drop (length ''a/'' + k + length '' b/'') ?t"
    using t by metis
  have "fname = take k (takeWhile ?P (drop (length ''a/'') ?t))"
    unfolding fn using k(4) by (metis takeWhile_eq_take take_take min.absorb1)
  then have ok: "\<forall>c\<in>set fname. \<not> isLineTerminator c"
    by (metis in_set_takeD set_takeWhileD)
  have "length fname = k" unfolding fn using k(4) length_takeWhile_le[of ?P "drop (length ''a/'') ?t"]
    by simp
  then have ne: "fname \<noteq> []" using k(2) by auto
  have leni: "length (take i part) = i" using i by simp
  have least: "\<forall>pre' x post'. part = pre' @ ''a/'' @ x @ '' b/'' @ post' \<and> x \<noteq> [] \<and>
                 (\<forall>c\<in>set x. \<not> isLineTerminator c) \<longrightarrow>
               length (take i part) \<le> length pre' \<and>
               (length pre' = length (take i part) \<longrightarrow> length fname \<le> length x)"
    unfolding leni using fileMatch_Some_least[OF assms _ _ _ m] by blast
  show ?thesis
    using part ne ok least by blast
qed

lemma fileMatch_None_iff:
  "fileMatch part = None \<longleftrightarrow>
   \<not> (\<exists>pre x post. part = pre @ ''a/'' @ x @ '' b/'' @ post \<and> x \<noteq> [] \<and>
                     (\<forall>c\<in>set x. \<not> isLineTerminator c))"
proof
  assume "fileMatch part = None"
  then show "\<not> (\<exists>pre x post. part = pre @ ''a/'' @ x @ '' b/'' @ post \<and> x \<noteq> [] \<and>
                     (\<forall>c\<in>set x. \<not> isLineTerminator c))"
    by (rule fileMatch_None)
next
  assume no: "\<not> (\<exists>pre x post. part = pre @ ''a/'' @ x @ '' b/'' @ post \<and> x \<noteq> [] \<and>
                     (\<forall>c\<in>set x. \<not> isLineTerminator c))"
  show "fileMatch part = None"
  proof (cases "fileMatch part")
    case None then show ?thesis .
  next
    case (Some fname)
    from fileMatch_Some[OF Some] no show ?thesis by blast
  qed
qed

section \<open>Claims about the diff parser\<close>

text \<open>
  C7.  \<open>parseDiff\<close> returns the empty map for the empty string, for \<open>undefined\<close> and
  for every other value that is no string; the function has no throwing path.
\<close>

theorem parseDiff_absent_or_empty:
  "parseDiff (JStr []) = Map.empty \<and> parseDiff JUndefined = Map.empty \<and>
   parseDiff JNull = Map.empty \<and> parseDiff (JBool b) = Map.empty \<and>
   parseDiff (JNum n) = Map.empty \<and> parseDiff JObject = Map.empty"
  by (simp add: parseDiff_def)

text \<open>
  C6, as stated, fails: for a renamed file the path the parser extracts is the old one, and
  the new-file path gets no entry; and a section whose header has no \<open>a/\<close> and \<open>b/\<close>
  prefixes is not skipped when one of its lines contains such a text.
\<close>

theorem parseDiff_rename_counterexample:
  "parseDiff (JStr exRenameDiff) ''new.js'' = None \<and>
   parseDiff (JStr exRenameDiff) ''old.js'' = Some ''x'' \<and>
   parseDiff (JStr exNoPrefixDiff) ''foo'' = Some ''// see a/foo b/bar''"
  by code_simp

text \<open>
  C6, amended.  For every non-empty diff text, with its sections being the pieces between
  the lines that begin with \<open>diff --git\<close>: the map sends a path to the added lines (the
  lines that begin with \<open>+\<close> but not with \<open>+++\<close>, without their first character,
  joined by line feeds) of the last non-blank section from which this path is extracted,
  and has no entry for a path extracted from no section (nor for \<open>__proto__\<close>).  The
  path extracted from a section is the text after the leftmost \<open>a/\<close> of the section
  that a non-empty text within one line and then \<open> b/\<close> follow, up to the first such
  \<open> b/\<close>: in a header \<open>diff --git a/OLD b/NEW\<close> it is the old path.  Nothing is
  extracted exactly from the sections that contain no such text.
\<close>

theorem parseDiff_sections:
  assumes "s \<noteq> []"
  shows "parseDiff (JStr s) fname =
     (case filter (\<lambda>part. String_trim part \<noteq> [] \<and> fileMatch part = Some fname)
             (String_split_regex diffSeparator s) of
        [] \<Rightarrow> None
      | p # ps \<Rightarrow>
          if fname = ''__proto__'' then None
          else Some (Array_join [CHR 0x0A]
                 (map (\<lambda>line. drop 1 line)
                    (filter (\<lambda>line. startsWith line ''+'' \<and> \<not> startsWith line ''+++'')
                       (String_split (CHR 0x0A) (last (p # ps))))))) \<and>
     (\<forall>part. fileMatch part = Some fname \<longrightarrow>
        (\<exists>pre post. part = pre @ ''a/'' @ fname @ '' b/'' @ post \<and> fname \<noteq> [] \<and>
           (\<forall>c\<in>set fname. \<not> isLineTerminator c) \<and>
           (\<forall>pre' x post'. part = pre' @ ''a/'' @ x @ '' b/'' @ post' \<and> x \<noteq> [] \<and>
                 (\<forall>c\<in>set x. \<not> isLineTerminator c) \<longrightarrow>
               length pre \<le> length pre' \<and>
               (length pre' = length pre \<longrightarrow> length fname \<le> length x)))) \<and>
     (\<forall>part. fileMatch part = None \<longleftrightarrow>
        \<not> (\<exists>pre x post. part = pre @ ''a/'' @ x @ '' b/'' @ post \<and> x \<noteq> [] \<and>
                          (\<forall>c\<in>set x. \<not> isLineTerminator c)))"
proof (intro conjI allI impI)
  show "parseDiff (JStr s) fname =
     (case filter (\<lambda>part. String_trim part \<noteq> [] \<and> fileMatch part = Some fname)
             (String_split_regex diffSeparator s) of
        [] \<Rightarrow> None
      | p # ps \<Rightarrow>
          if fname = ''__proto__'' then None
          else Some (Array_join [CHR 0x0A]
                 (map (\<lambda>line. drop 1 line)
                    (filter (\<lambda>line. startsWith line ''+'' \<and> \<not> startsWith line ''+++'')
                       (String_split (CHR 0x0A) (last (p # ps)))))))"
    using assms
    by (simp add: parseDiff_def fold_parseDiff_part addedLinesOf_def split: list.splits)
next
  fix part assume "fileMatch part = Some fname"
  then show "\<exists>pre post. part = pre @ ''a/'' @ fname @ '' b/'' @ post \<and> fname \<noteq> [] \<and>
           (\<forall>c\<in>set fname. \<not> isLineTerminator c) \<and>
           (\<forall>pre' x post'. part = pre' @ ''a/'' @ x @ '' b/'' @ post' \<and> x \<noteq> [] \<and>
                 (\<forall>c\<in>set x. \<not> isLineTerminator c) \<longrightarrow>
               length pre \<le> length pre' \<and>
               (length pre' = length pre \<longrightarrow> length fname \<le> length x))"
    by (rule fileMatch_Some_exact)
next
  fix part
  show "fileMatch part = None \<longleftrightarrow>
        \<not> (\<exists>pre x post. part = pre @ ''a/'' @ x @ '' b/'' @ post \<and> x \<noteq> [] \<and>
                          (\<forall>c\<in>set x. \<not> isLineTerminator c))"
    by (rule fileMatch_None_iff)
qed

theorem parseDiff_sections_witness:
  "exDiff \<noteq> [] \<and>
   parseDiff (JStr exDiff) ''src/app.js'' = Some (''if (a) {'' @ [CHR 0x0A] @ ''}'') \<and>
   parseDiff (JStr exDiff) ''b.py'' = Some ''pass'' \<and>
   parseDiff (JStr exDiff) ''lib.js'' = None"
proof -
  have ne: "exDiff \<noteq> []" by (simp add: exDiff_def)
  have parts: "String_split_regex diffSeparator exDiff =
      [[],
       '' a/src/app.js b/src/app.js'' @ [CHR 0x0A] @ ''--- a/src/app.js'' @ [CHR 0x0A] @
       ''+++ b/src/app.js'' @ [CHR 0x0A] @ ''@@ -1,2 +1,3 @@'' @ [CHR 0x0A] @
       '' const a = 1;'' @ [CHR 0x0A] @ ''-old();'' @ [CHR 0x0A] @ ''+if (a) {'' @ [CHR 0x0A] @
       ''+}'' @ [CHR 0x0A],
       '' lib.js lib.js'' @ [CHR 0x0A] @ ''+dropped();'' @ [CHR 0x0A],
       '' a/b.py b/b.py'' @ [CHR 0x0A] @ ''+pass'' @ [CHR 0x0A]]"
    by code_simp
  have a: "parseDiff (JStr exDiff) ''src/app.js'' = Some (''if (a) {'' @ [CHR 0x0A] @ ''}'')"
    by (subst conjunct1[OF parseDiff_sections[OF ne]], unfold parts) code_simp
  have b: "parseDiff (JStr exDiff) ''b.py'' = Some ''pass''"
    by (subst conjunct1[OF parseDiff_sections[OF ne]], unfold parts) code_simp
  have c: "parseDiff (JStr exDiff) ''lib.js'' = None"
    by (subst conjunct1[OF parseDiff_sections[OF ne]], unfold parts) code_simp
  show ?thesis using ne a b c by simp
qed

section \<open>Lemmas about the complexity analyzer\<close>

lemma RegExp_exec_None: "RegExp_exec r s li = (None, li') \<Longrightarrow> li' = 0"
  by (auto simp: RegExp_exec_def split: if_splits option.splits)

lemma snd_matchLoop: "snd (matchLoop r s li) = 0"
proof (induction r s li rule: matchLoop.induct)
  case (1 r s li)
  show ?case
  proof (cases "RegExp_exec r s li")
    case (Pair m li')
    show ?thesis
    proof (cases m)
      case None
      then show ?thesis using Pair RegExp_exec_None[of r s li li']
        by (subst matchLoop.simps) simp
    next
      case (Some a)
      obtain i n where a: "a = (i, n)" by (cases a)
      from 1[OF Pair[symmetric] Some a[symmetric]] show ?thesis
        using Pair Some a by (subst matchLoop.simps) (auto split: prod.splits if_splits)
    qed
  qed
qed

lemma String_match_global_state:
  "String_match_global r s li = (fst (String_match_global r s 0), 0)"
  using snd_matchLoop[of r s 0] by (simp add: String_match_global_def prod_eq_iff)

lemma resetOn_resetOn: "resetOn U (resetOn V st) = resetOn (U \<union> V) st"
  by (auto simp: resetOn_def)

lemma resetOn_empty: "resetOn {} st = st" by (simp add: resetOn_def)

lemma fun_upd_resetOn: "st(k := 0) = resetOn {k} st" by (auto simp: resetOn_def)

lemma analyzeFileComplexity_state:
  "analyzeFileComplexity st fname content =
     (estimateOf fname content, resetOn {ControlFlow (langOf fname)} st)"
  unfolding analyzeFileComplexity_def estimateOf_def Let_def
  by (subst (1 2) String_match_global_state) (simp add: fun_upd_resetOn)

lemma detectLoop_state:
  "detectLoop st content i rules =
     (fst (detectLoop (\<lambda>_. 0) content i rules), resetOn (SmellPattern ` {i..<i + length rules}) st)"
proof (induction rules arbitrary: st i)
  case Nil
  then show ?case by (simp add: resetOn_empty)
next
  case (Cons smell rest)
  have "{i..<Suc (i + length rest)} = insert i {Suc i..<Suc (i + length rest)}" by auto
  then have set: "insert (SmellPattern i) (SmellPattern ` {Suc i..<Suc (i + length rest)})
      = SmellPattern ` {i..<Suc (i + length rest)}"
    by (metis image_insert)
  show ?case
    apply (simp only: detectLoop.simps Let_def)
    apply (subst (1 2) String_match_global_state)
    apply (simp only: prod.case fun_upd_resetOn)
    apply (subst Cons.IH)
    apply (subst (2) Cons.IH)
    apply (simp add: resetOn_resetOn set split: prod.splits)
    done
qed

lemma detectCodeSmells_state:
  "detectCodeSmells st content =
     (smellsOf content, resetOn (SmellPattern ` {0..<length CODE_SMELL_PATTERNS}) st)"
  unfolding detectCodeSmells_def smellsOf_def
  using detectLoop_state[of st content 0 CODE_SMELL_PATTERNS] by simp

lemma analyzeComplexity_file_eq:
  "analyzeComplexity_file glob ig dc st result file =
     ((case Array_some (minimatch glob (filename file)) ig of
         Inl e \<Rightarrow> Inl e
       | Inr ignored \<Rightarrow>
           if ignored \<or> \<not> isCodeFile (filename file) then Inr result
           else (case dc (filename file) of
                   None \<Rightarrow> Inr (checkLargeAdditions file (addTotals file result))
                 | Some content \<Rightarrow>
                     if content = [] then Inr (checkLargeAdditions file (addTotals file result))
                     else Inr (checkLongLines (filename file) (estimateOf (filename file) content)
                            (pushSmells (filename file) (smellsOf content)
                              (checkNesting (filename file) (estimateOf (filename file) content)
                                (checkComplexity (filename file) (estimateOf (filename file) content)
                                  (checkLargeAdditions file (addTotals file result)))))))),
      resetOn (usedRegexes glob ig dc file) st)"
  unfolding analyzeComplexity_file_def usedRegexes_def
  by (auto simp: Let_def analyzeFileComplexity_state detectCodeSmells_state resetOn_resetOn
      resetOn_empty split: sum.splits option.splits)

lemma analyzeComplexity_file_state:
  "analyzeComplexity_file glob ig dc st result file =
     (fileReport glob ig dc result file, resetOn (usedRegexes glob ig dc file) st)"
  unfolding fileReport_def by (subst (1 2) analyzeComplexity_file_eq) simp

lemma analyzeComplexity_loop_state:
  "\<exists>U. \<forall>st. analyzeComplexity_loop glob ig dc st result fs =
     (loopReport glob ig dc result fs, resetOn U st)"
proof (induction fs arbitrary: result)
  case Nil
  show ?case by (rule exI[of _ "{}"]) (simp add: resetOn_empty loopReport_def)
next
  case (Cons f fs)
  let ?U1 = "usedRegexes glob ig dc f"
  note step = analyzeComplexity_file_state[of glob ig dc _ result f]
  show ?case
  proof (cases "fileReport glob ig dc result f")
    case (Inl e)
    show ?thesis
      by (rule exI[of _ ?U1]) (simp add: step Inl loopReport_def)
  next
    case (Inr r')
    from Cons.IH[of r'] obtain U2 where U2: "\<And>st. analyzeComplexity_loop glob ig dc st r' fs =
       (loopReport glob ig dc r' fs, resetOn U2 st)" by blast
    have rep: "loopReport glob ig dc result (f # fs) = loopReport glob ig dc r' fs"
      unfolding loopReport_def[of glob ig dc result] by (simp add: step Inr U2)
    show ?thesis
      by (rule exI[of _ "U2 \<union> ?U1"]) (simp add: step Inr U2 rep resetOn_resetOn)
  qed
qed

lemma analyzeComplexity_state:
  "\<exists>F U. \<forall>st. analyzeComplexity glob st fs diff opts = (F, resetOn U st)"
proof -
  obtain U where U: "\<And>st. analyzeComplexity_loop glob (ignorePatterns opts) (parseDiff diff) st
        emptyComplexityReport fs =
     (loopReport glob (ignorePatterns opts) (parseDiff diff) emptyComplexityReport fs, resetOn U st)"
    using analyzeComplexity_loop_state by blast
  show ?thesis
    by (rule exI[of _ "map_sum id (calculateStats fs)
          (loopReport glob (ignorePatterns opts) (parseDiff diff) emptyComplexityReport fs)"],
        rule exI[of _ U])
       (simp add: analyzeComplexity_def U split: sum.splits)
qed

lemma fileReport_eq:
  "fileReport glob ig dc result file =
     (case Array_some (minimatch glob (filename file)) ig of
         Inl e \<Rightarrow> Inl e
       | Inr ignored \<Rightarrow>
           if ignored \<or> \<not> isCodeFile (filename file) then Inr result
           else (case dc (filename file) of
                   None \<Rightarrow> Inr (checkLargeAdditions file (addTotals file result))
                 | Some content \<Rightarrow>
                     if content = [] then Inr (checkLargeAdditions file (addTotals file result))
                     else Inr (checkLongLines (filename file) (estimateOf (filename file) content)
                            (pushSmells (filename file) (smellsOf content)
                              (checkNesting (filename file) (estimateOf (filename file) content)
                                (checkComplexity (filename file) (estimateOf (filename file) content)
                                  (checkLargeAdditions file (addTotals file result))))))))"
  unfolding fileReport_def by (subst analyzeComplexity_file_eq) simp

lemma loopReport_Nil: "loopReport glob ig dc result [] = Inr result"
  by (simp add: loopReport_def)

lemma loopReport_Cons:
  "loopReport glob ig dc result (f # fs) =
     (case fileReport glob ig dc result f of
        Inl e \<Rightarrow> Inl e
      | Inr r' \<Rightarrow> loopReport glob ig dc r' fs)"
proof -
  show ?thesis
  proof (cases "fileReport glob ig dc result f")
    case (Inl e)
    then show ?thesis
      by (simp add: loopReport_def[of glob ig dc result] analyzeComplexity_file_state)
  next
    case (Inr r')
    obtain U2 where "\<And>st. analyzeComplexity_loop glob ig dc st r' fs =
       (loopReport glob ig dc r' fs, resetOn U2 st)"
      using analyzeComplexity_loop_state by blast
    then show ?thesis using Inr
      by (simp add: loopReport_def[of glob ig dc result] analyzeComplexity_file_state)
  qed
qed

lemma fst_analyzeComplexity:
  "fst (analyzeComplexity glob st fs diff opts) =
     (case loopReport glob (ignorePatterns opts) (parseDiff diff) emptyComplexityReport fs of
        Inl e \<Rightarrow> Inl e
      | Inr r \<Rightarrow> Inr (calculateStats fs r))"
proof -
  obtain U where "\<And>st. analyzeComplexity_loop glob (ignorePatterns opts) (parseDiff diff) st
        emptyComplexityReport fs =
     (loopReport glob (ignorePatterns opts) (parseDiff diff) emptyComplexityReport fs, resetOn U st)"
    using analyzeComplexity_loop_state by blast
  then show ?thesis by (simp add: analyzeComplexity_def split: sum.splits)
qed

lemma warnings_addTotals [simp]: "warnings (addTotals file r) = warnings r"
  by (simp add: addTotals_def)

lemma warnings_pushSmells [simp]: "warnings (pushSmells fname sm r) = warnings r"
  by (simp add: pushSmells_def)

lemma warnings_calculateStats [simp]: "warnings (calculateStats fs r) = warnings r"
  by (simp add: calculateStats_def)

lemma warnings_checkLargeAdditions:
  "warnings (checkLargeAdditions file r) =
     warnings r @ (if additions file > largeAdditions then [sizeWarning file] else [])"
  by (simp add: checkLargeAdditions_def sizeWarning_def)

lemma warnings_checkComplexity:
  "warnings (checkComplexity fname c r) =
     warnings r @ (if ComplexityEstimate.complexity c > maxCyclomaticComplexity
                   then [complexityWarning fname (ComplexityEstimate.complexity c)] else [])"
  by (simp add: checkComplexity_def complexityWarning_def)

lemma warnings_checkNesting:
  "warnings (checkNesting fname c r) =
     warnings r @ (if maxNesting c > maxNestingDepth then [nestingWarning fname (maxNesting c)] else [])"
  by (simp add: checkNesting_def nestingWarning_def)

lemma warnings_checkLongLines:
  "warnings (checkLongLines fname c r) =
     warnings r @ (if longLines c > 0 then [formattingWarning fname (longLines c)] else [])"
  by (simp add: checkLongLines_def formattingWarning_def)

lemmas warnings_checks = warnings_checkLargeAdditions warnings_checkComplexity
  warnings_checkNesting warnings_checkLongLines

lemma fileReport_warnings:
  assumes "fileReport glob ig dc result file = Inr r"
  shows "set (warnings result) \<subseteq> set (warnings r) \<and>
         (\<forall>w\<in>set (warnings r). w \<in> set (warnings result) \<or>
            (Warning.filename w = filename file \<and>
             Array_some (minimatch glob (filename file)) ig = Inr False))"
  using assms unfolding fileReport_eq
  by (auto simp: warnings_checks sizeWarning_def complexityWarning_def nestingWarning_def
      formattingWarning_def split: sum.splits if_splits option.splits)

lemma loopReport_warnings:
  "loopReport glob ig dc result fs = Inr r \<Longrightarrow>
   set (warnings result) \<subseteq> set (warnings r) \<and>
   (\<forall>w\<in>set (warnings r). w \<in> set (warnings result) \<or>
      (\<exists>f\<in>set fs. Warning.filename w = filename f \<and>
         Array_some (minimatch glob (filename f)) ig = Inr False))"
proof (induction fs arbitrary: result)
  case Nil
  then show ?case by (simp add: loopReport_Nil)
next
  case (Cons f fs)
  from Cons.prems obtain r' where r': "fileReport glob ig dc result f = Inr r'"
      "loopReport glob ig dc r' fs = Inr r"
    by (auto simp: loopReport_Cons split: sum.splits)
  from fileReport_warnings[OF r'(1)] Cons.IH[OF r'(2)] show ?case
    by (auto; blast)
qed

lemma fileReport_complexity_warning:
  assumes "Array_some (minimatch glob (filename file)) ig = Inr False"
    and "isCodeFile (filename file)" and "dc (filename file) = Some content" and "content \<noteq> []"
    and "ComplexityEstimate.complexity (estimateOf (filename file) content) > maxCyclomaticComplexity"
  shows "\<exists>r. fileReport glob ig dc result file = Inr r \<and>
             complexityWarning (filename file)
               (ComplexityEstimate.complexity (estimateOf (filename file) content)) \<in> set (warnings r)"
  using assms unfolding fileReport_eq by (simp add: warnings_checks)

lemma loopReport_complexity_warning:
  assumes "file \<in> set fs"
    and "\<forall>p\<in>set ig. minimatch glob (filename file) p \<noteq> Inr True"
    and "isCodeFile (filename file)" and "dc (filename file) = Some content" and "content \<noteq> []"
    and "ComplexityEstimate.complexity (estimateOf (filename file) content) > maxCyclomaticComplexity"
  shows "loopReport glob ig dc result fs = Inr r \<Longrightarrow>
         complexityWarning (filename file)
           (ComplexityEstimate.complexity (estimateOf (filename file) content)) \<in> set (warnings r)"
  using assms(1)
proof (induction fs arbitrary: result)
  case Nil
  then show ?case by simp
next
  case (Cons f fs)
  from Cons.prems(1) obtain r' where r': "fileReport glob ig dc result f = Inr r'"
      "loopReport glob ig dc r' fs = Inr r"
    by (auto simp: loopReport_Cons split: sum.splits)
  show ?case
  proof (cases "f = file")
    case True
    have "\<exists>b. Array_some (minimatch glob (filename file)) ig = Inr b"
      using r'(1) True unfolding fileReport_eq by (auto split: sum.splits)
    then have ni: "Array_some (minimatch glob (filename file)) ig = Inr False"
      using assms(2) Array_some_True[of "minimatch glob (filename file)" ig] by (metis (full_types))
    have "\<exists>r. fileReport glob ig dc result file = Inr r \<and>
             complexityWarning (filename file)
               (ComplexityEstimate.complexity (estimateOf (filename file) content)) \<in> set (warnings r)"
      using ni assms(3-6) by (rule fileReport_complexity_warning)
    then have "complexityWarning (filename file)
           (ComplexityEstimate.complexity (estimateOf (filename file) content)) \<in> set (warnings r')"
      using r'(1) True by simp
    then show ?thesis using loopReport_warnings[OF r'(2)] by blast
  next
    case False
    then have "file \<in> set fs" using Cons.prems(2) by simp
    from Cons.IH[OF r'(2) this] show ?thesis .
  qed
qed

lemma analyzeRisk_file_ignored:
  assumes "\<exists>p\<in>set ig. minimatch glob (filename file) p = Inr True"
    and "analyzeRisk_file glob pats ig result file = Inr r"
  shows "r = result"
  using assms(2)
proof (cases rule: analyzeRisk_file_cases)
  case ignored then show ?thesis by simp
next
  case unmatched then show ?thesis by simp
next
  case (matched ms byCat)
  then show ?thesis using assms(1) Array_some_False by fastforce
qed

lemma analyzeRisk_loop_drop_ignored:
  assumes "\<exists>p\<in>set ig. minimatch glob fname p = Inr True"
  shows "analyzeRisk_loop glob pats ig result fs = Inr r \<Longrightarrow>
         analyzeRisk_loop glob pats ig result (filter (\<lambda>f. filename f \<noteq> fname) fs) = Inr r"
proof (induction fs arbitrary: result)
  case Nil then show ?case by simp
next
  case (Cons f fs)
  from Cons.prems obtain r' where r': "analyzeRisk_file glob pats ig result f = Inr r'"
      "analyzeRisk_loop glob pats ig r' fs = Inr r"
    by (auto split: sum.splits)
  show ?case
  proof (cases "filename f = fname")
    case True
    then have "r' = result" using analyzeRisk_file_ignored[OF _ r'(1)] assms by simp
    then show ?thesis using Cons.IH r'(2) True by simp
  next
    case False
    then show ?thesis using Cons.IH[OF r'(2)] r'(1) by simp
  qed
qed

lemma analyzeRisk_loop_filenames:
  "analyzeRisk_loop glob pats ig result fs = Inr r \<Longrightarrow>
   \<forall>rf\<in>set (files r). rf \<in> set (files result) \<or>
     (\<exists>f\<in>set fs. filename rf = filename f \<and>
        Array_some (minimatch glob (filename f)) ig = Inr False)"
proof (induction fs arbitrary: result)
  case Nil then show ?case by simp
next
  case (Cons f fs)
  from Cons.prems obtain r' where r': "analyzeRisk_file glob pats ig result f = Inr r'"
      "analyzeRisk_loop glob pats ig r' fs = Inr r"
    by (auto split: sum.splits)
  have step: "\<forall>rf\<in>set (files r'). rf \<in> set (files result) \<or>
     (filename rf = filename f \<and> Array_some (minimatch glob (filename f)) ig = Inr False)"
    using r'(1) by (cases rule: analyzeRisk_file_cases) auto
  show ?case using Cons.IH[OF r'(2)] step by fastforce
qed

lemma decimal_12: "decimal 12 = ''12''" by code_simp

lemma decimal_10: "decimal maxCyclomaticComplexity = ''10''" by code_simp

text \<open>The lookup \<open>diffContent[file.filename]\<close> is reached only for a name with a code
  extension, which is none of the inherited keys of an object: a map models it.\<close>

lemma inherited_keys_no_code: "list_all (\<lambda>k. \<not> isCodeFile k) objectPrototypeKeys"
  by code_simp

lemma isCodeFile_own_key: "isCodeFile fname \<Longrightarrow> fname \<notin> set objectPrototypeKeys"
  using inherited_keys_no_code by (auto simp: list_all_iff)

subsection \<open>The matches of a control-flow pattern in a text without operators\<close>

lemma prevAt_Cons_Suc: "prevAt prev (c # cs) (Suc k) = prevAt (Some c) cs k"
  by (cases k) (auto simp: prevAt_def nextChar_def)

lemma prevAt_drop:
  "li \<le> length s \<Longrightarrow> prevAt (prevAt prev s li) (drop li s) m = prevAt prev s (li + m)"
proof (induction s arbitrary: prev li)
  case Nil
  then show ?case by (cases m) (auto simp: prevAt_def nextChar_def)
next
  case (Cons c cs)
  show ?case
  proof (cases li)
    case 0
    then show ?thesis by (simp add: prevAt_def)
  next
    case (Suc k)
    then have "k \<le> length cs" using Cons.prems by simp
    from Cons.IH[OF this, of "Some c"] show ?thesis
      using Suc by (simp add: prevAt_Cons_Suc)
  qed
qed

lemma lens_WordBoundary_mem:
  "n \<in> set (lens WordBoundary prev s) \<longleftrightarrow> n = 0 \<and> isWordAt prev \<noteq> isWordAt (nextChar s)"
  by auto

lemma lens_LitAlt_mem:
  "n \<in> set (lens (LitAlt ws) prev s) \<longleftrightarrow> (\<exists>w\<in>set ws. n = length w \<and> take (length w) s = w)"
  by (auto simp: litMatches_def)

lemma lens_controlFlow_mem:
  "n \<in> set (lens (controlFlow toks) prev t) \<longleftrightarrow>
     isWordAt prev \<noteq> isWordAt (nextChar t) \<and>
     (\<exists>w\<in>set toks. n = length w \<and> take (length w) t = w \<and>
        isWordAt (prevAt prev t n) \<noteq> isWordAt (nextChar (drop n t)))"
  unfolding controlFlow_def lens_Seq_mem Bex_def lens_WordBoundary_mem lens_LitAlt_mem
  by (auto simp: prevAt_def)

lemma isWordAt_nextChar: "isWordAt (nextChar r) \<longleftrightarrow> r \<noteq> [] \<and> isWordChar (hd r)"
  by (cases r) (auto simp: isWordAt_def nextChar_def)

lemma nextChar_drop_last:
  assumes "take (length w) t = w" and "w \<noteq> []"
  shows "nextChar (drop (length w - 1) t) = Some (last w)"
proof -
  have "length (take (length w) t) = length w" using assms(1) by simp
  then have len: "length w \<le> length t" by simp
  then have lt: "length w - 1 < length t" using assms(2) by (cases w) auto
  have "t ! (length w - 1) = w ! (length w - 1)"
    using assms by (metis diff_less length_greater_0_conv nth_take zero_less_one)
  then have "t ! (length w - 1) = last w" using assms(2) by (simp add: last_conv_nth)
  moreover have "drop (length w - 1) t = t ! (length w - 1) # drop (Suc (length w - 1)) t"
    using lt by (simp add: Cons_nth_drop_Suc)
  ultimately show ?thesis by (simp add: nextChar_def)
qed

lemma takeWhile_prefix_eq:
  assumes "take (length w) t = w" and "\<forall>c\<in>set w. P c"
    and "drop (length w) t = [] \<or> \<not> P (hd (drop (length w) t))"
  shows "takeWhile P t = w"
proof -
  have t: "t = w @ drop (length w) t" using assms(1) by (metis append_take_drop_id)
  have "takeWhile P (drop (length w) t) = []"
    using assms(3) by (cases "drop (length w) t") auto
  then have "takeWhile P (w @ drop (length w) t) = w"
    using assms(2) by (simp add: takeWhile_append2)
  then show ?thesis using t by simp
qed

lemma lens_controlFlow_sound:
  assumes ok: "tokensOK ops toks" and free: "\<forall>c\<in>set t. c \<notin> ops"
    and n: "n \<in> set (lens (controlFlow toks) prev t)"
  shows "\<not> isWordAt prev \<and> isWordAt (nextChar t) \<and> takeWhile isWordChar t \<in> set toks \<and>
         n = length (takeWhile isWordChar t) \<and> 0 < n"
proof -
  from n obtain w where w: "w \<in> set toks" "n = length w" "take (length w) t = w"
      and b1: "isWordAt prev \<noteq> isWordAt (nextChar t)"
      and b2: "isWordAt (prevAt prev t n) \<noteq> isWordAt (nextChar (drop n t))"
    unfolding lens_controlFlow_mem by blast
  have wne: "w \<noteq> []" using ok w(1) by (auto simp: tokensOK_def)
  then have tne: "t \<noteq> []" using w(3) by auto
  have hd: "hd t = hd w" using w(3) wne by (metis hd_take length_greater_0_conv)
  have "hd t \<in> set t" using tne by simp
  then have "hd w \<notin> ops" using free hd by auto
  then have allw: "\<forall>c\<in>set w. isWordChar c" using ok w(1) by (auto simp: tokensOK_def)
  have nw: "isWordAt (nextChar t)"
    using tne hd allw wne by (simp add: isWordAt_nextChar)
  then have np: "\<not> isWordAt prev" using b1 by simp
  have npos: "0 < n" using w(2) wne by simp
  have "prevAt prev t n = Some (last w)"
    using npos w(2) nextChar_drop_last[OF w(3) wne] by (simp add: prevAt_def)
  then have "isWordAt (prevAt prev t n)" using allw wne by (simp add: isWordAt_def)
  then have "\<not> isWordAt (nextChar (drop n t))" using b2 by simp
  then have "drop (length w) t = [] \<or> \<not> isWordChar (hd (drop (length w) t))"
    using w(2) by (auto simp: isWordAt_nextChar)
  from takeWhile_prefix_eq[OF w(3) allw this] have "takeWhile isWordChar t = w" .
  then show ?thesis using np nw w npos by simp
qed

lemma lens_controlFlow_complete:
  assumes np: "\<not> isWordAt prev" and nw: "isWordAt (nextChar t)"
    and run: "takeWhile isWordChar t \<in> set toks"
  shows "length (takeWhile isWordChar t) \<in> set (lens (controlFlow toks) prev t)"
proof -
  let ?w = "takeWhile isWordChar t"
  have tne: "t \<noteq> []" "isWordChar (hd t)" using nw by (auto simp: isWordAt_nextChar)
  then have wne: "?w \<noteq> []" by (cases t) auto
  have tk: "take (length ?w) t = ?w" by (simp add: takeWhile_eq_take[symmetric])
  have allw: "\<forall>c\<in>set ?w. isWordChar c" by (auto dest: set_takeWhileD)
  have "prevAt prev t (length ?w) = Some (last ?w)"
    using wne nextChar_drop_last[OF tk wne] by (simp add: prevAt_def)
  then have a: "isWordAt (prevAt prev t (length ?w))"
    using allw wne by (simp add: isWordAt_def)
  have "drop (length ?w) t = dropWhile isWordChar t" by (simp add: dropWhile_eq_drop)
  moreover have "dropWhile isWordChar t = [] \<or> \<not> isWordChar (hd (dropWhile isWordChar t))"
    using hd_dropWhile[of isWordChar t] by blast
  ultimately have b: "\<not> isWordAt (nextChar (drop (length ?w) t))"
    by (simp only: isWordAt_nextChar) blast
  show ?thesis
    unfolding lens_controlFlow_mem using np nw run tk a b by blast
qed

lemma lens_controlFlow_Nil_iff:
  assumes "tokensOK ops toks" and "\<forall>c\<in>set t. c \<notin> ops"
  shows "lens (controlFlow toks) prev t = [] \<longleftrightarrow>
         \<not> (\<not> isWordAt prev \<and> isWordAt (nextChar t) \<and> takeWhile isWordChar t \<in> set toks)"
proof
  assume e: "lens (controlFlow toks) prev t = []"
  show "\<not> (\<not> isWordAt prev \<and> isWordAt (nextChar t) \<and> takeWhile isWordChar t \<in> set toks)"
  proof
    assume "\<not> isWordAt prev \<and> isWordAt (nextChar t) \<and> takeWhile isWordChar t \<in> set toks"
    then have "length (takeWhile isWordChar t) \<in> set (lens (controlFlow toks) prev t)"
      using lens_controlFlow_complete by blast
    then show False using e by simp
  qed
next
  assume c: "\<not> (\<not> isWordAt prev \<and> isWordAt (nextChar t) \<and> takeWhile isWordChar t \<in> set toks)"
  show "lens (controlFlow toks) prev t = []"
  proof (cases "lens (controlFlow toks) prev t")
    case Nil then show ?thesis .
  next
    case (Cons n ns)
    then have "n \<in> set (lens (controlFlow toks) prev t)" by simp
    from lens_controlFlow_sound[OF assms this] c show ?thesis by blast
  qed
qed


lemma tokenRuns_no_match:
  assumes ok: "tokensOK ops toks"
  shows "\<forall>c\<in>set t. c \<notin> ops \<Longrightarrow>
         \<forall>j<i. lens (controlFlow toks) (prevAt prev t j) (drop j t) = [] \<Longrightarrow> i \<le> length t \<Longrightarrow>
         tokenRuns toks (isWordAt prev) t = tokenRuns toks (isWordAt (prevAt prev t i)) (drop i t)"
proof (induction i arbitrary: prev t)
  case 0
  then show ?case by (simp add: prevAt_def)
next
  case (Suc i)
  then obtain c cs where t: "t = c # cs" by (cases t) auto
  have "lens (controlFlow toks) prev t = []" using Suc.prems(2)[rule_format, of 0] by (simp add: prevAt_def)
  then have here: "\<not> (\<not> isWordAt prev \<and> isWordAt (nextChar t) \<and> takeWhile isWordChar t \<in> set toks)"
    using lens_controlFlow_Nil_iff[OF ok Suc.prems(1)] by blast
  have rest: "\<forall>j<i. lens (controlFlow toks) (prevAt (Some c) cs j) (drop j cs) = []"
  proof (intro allI impI)
    fix j assume "j < i"
    then have "lens (controlFlow toks) (prevAt prev t (Suc j)) (drop (Suc j) t) = []"
      using Suc.prems(2) by simp
    then show "lens (controlFlow toks) (prevAt (Some c) cs j) (drop j cs) = []"
      by (simp add: t prevAt_Cons_Suc)
  qed
  have "tokenRuns toks (isWordAt (Some c)) cs = tokenRuns toks (isWordAt (prevAt (Some c) cs i)) (drop i cs)"
    using Suc.prems(1,3) rest by (intro Suc.IH) (auto simp: t)
  moreover have "tokenRuns toks (isWordAt prev) t = tokenRuns toks (isWordChar c) cs"
    using here by (auto simp: t isWordAt_nextChar)
  ultimately show ?case by (simp add: t prevAt_Cons_Suc isWordAt_def)
qed

lemma tokenRuns_inWord: "\<forall>c\<in>set w. isWordChar c \<Longrightarrow> tokenRuns toks True (w @ r) = tokenRuns toks True r"
  by (induction w) auto

lemma tokenRuns_match:
  assumes "\<not> inWord" and "isWordAt (nextChar t)" and "takeWhile isWordChar t \<in> set toks"
  shows "tokenRuns toks inWord t = Suc (tokenRuns toks True (drop (length (takeWhile isWordChar t)) t))"
proof -
  from assms(2) obtain c cs where t: "t = c # cs" and c: "isWordChar c"
    by (cases t) (auto simp: isWordAt_nextChar)
  have "tokenRuns toks True cs = tokenRuns toks True (takeWhile isWordChar cs @ dropWhile isWordChar cs)"
    by simp
  also have "\<dots> = tokenRuns toks True (dropWhile isWordChar cs)"
    by (rule tokenRuns_inWord) (auto dest: set_takeWhileD)
  finally have "tokenRuns toks True cs = tokenRuns toks True (drop (length (takeWhile isWordChar cs)) cs)"
    by (simp add: dropWhile_eq_drop)
  then show ?thesis using assms(1,3) c by (simp add: t)
qed

lemma matchLoop_tokenRuns:
  assumes ok: "tokensOK ops toks"
  shows "r = controlFlow toks \<Longrightarrow> \<forall>c\<in>set s. c \<notin> ops \<Longrightarrow> li \<le> length s \<Longrightarrow>
         length (fst (matchLoop r s li))
           = tokenRuns toks (isWordAt (prevAt None s li)) (drop li s)"
proof (induction r s li rule: matchLoop.induct)
  case (1 r s li)
  note r = "1.prems"(1)
  note free = "1.prems"(2)
  note li = "1.prems"(3)
  let ?r = "controlFlow toks"
  let ?prev = "prevAt None s li"
  let ?t = "drop li s"
  have freet: "\<forall>c\<in>set (drop k ?t). c \<notin> ops" for k
    using free by (auto dest!: in_set_dropD)
  have freet0: "\<forall>c\<in>set ?t. c \<notin> ops" using freet[of 0] by simp
  show ?case
  proof (cases "search ?r ?prev ?t")
    case None
    have "\<forall>j<length ?t. lens ?r (prevAt ?prev ?t j) (drop j ?t) = []"
      using search_None[OF None] by simp
    from tokenRuns_no_match[OF ok freet0 this order_refl]
    have "tokenRuns toks (isWordAt ?prev) ?t = 0" by simp
    moreover have "fst (matchLoop r s li) = []" unfolding r
      using None li by (subst matchLoop.simps) (simp add: RegExp_exec_def)
    ultimately show ?thesis by simp
  next
    case (Some m)
    obtain i n where m: "m = (i, n)" by (cases m)
    from search_Some[OF Some[unfolded m]] obtain ns where
      i: "i \<le> length ?t" and l: "lens ?r (prevAt ?prev ?t i) (drop i ?t) = n # ns" by blast
    let ?u = "drop i ?t"
    let ?w = "takeWhile isWordChar ?u"
    have "n \<in> set (lens ?r (prevAt ?prev ?t i) ?u)" using l by simp
    from lens_controlFlow_sound[OF ok freet this]
    have np: "\<not> isWordAt (prevAt ?prev ?t i)" and nw: "isWordAt (nextChar ?u)"
      and run: "?w \<in> set toks" and n: "n = length ?w" "0 < n" by blast+
    have "length ?w \<le> length ?u" by (rule length_takeWhile_le)
    then have le: "li + i + n \<le> length s" using n(1) i li by simp
    have ex: "RegExp_exec r s li = (Some (li + i, n), li + i + n)"
      using Some m li by (simp add: RegExp_exec_def r)
    have IH: "length (fst (matchLoop r s (li + i + n)))
                = tokenRuns toks (isWordAt (prevAt None s (li + i + n))) (drop (li + i + n) s)"
      using "1.IH"[OF ex[symmetric] refl refl] r free n(2) le by simp
    have skip: "tokenRuns toks (isWordAt ?prev) ?t = tokenRuns toks (isWordAt (prevAt ?prev ?t i)) ?u"
      using search_Some_least[OF Some[unfolded m]] i
      by (intro tokenRuns_no_match[OF ok freet0]) auto
    have "prevAt (prevAt ?prev ?t i) ?u n = Some (last ?w)"
    proof -
      have "take (length ?w) ?u = ?w" by (simp add: takeWhile_eq_take[symmetric])
      moreover have "?w \<noteq> []" using n by auto
      ultimately show ?thesis using n nextChar_drop_last[of ?w ?u] by (simp add: prevAt_def)
    qed
    moreover have "isWordChar (last ?w)"
    proof -
      have "?w \<noteq> []" using n by auto
      then have "last ?w \<in> set ?w" by simp
      then show ?thesis by (auto dest: set_takeWhileD)
    qed
    ultimately have inw: "isWordAt (prevAt (prevAt ?prev ?t i) ?u n)" by (simp add: isWordAt_def)
    have p: "prevAt None s (li + i + n) = prevAt (prevAt ?prev ?t i) ?u n"
      using prevAt_drop[OF li, of None "i + n"] prevAt_drop[OF i, of ?prev n]
      by (simp add: add.assoc)
    have d: "drop (li + i + n) s = drop n ?u" by (simp add: add.commute add.left_commute)
    have "tokenRuns toks (isWordAt (prevAt ?prev ?t i)) ?u = Suc (tokenRuns toks True (drop n ?u))"
      using tokenRuns_match[OF np nw run] n(1) by simp
    then have "tokenRuns toks (isWordAt ?prev) ?t
                 = Suc (tokenRuns toks (isWordAt (prevAt None s (li + i + n))) (drop (li + i + n) s))"
      using skip inw by (simp only: p d)
    moreover have "length (fst (matchLoop r s li)) = Suc (length (fst (matchLoop r s (li + i + n))))"
      using ex n(2) by (subst matchLoop.simps) (simp add: split: prod.splits)
    ultimately show ?thesis using IH by simp
  qed
qed

lemma matches_are_token_runs:
  assumes "tokensOK ops toks" and "\<forall>c\<in>set s. c \<notin> ops"
  shows "length (fst (String_match_global (controlFlow toks) s li)) = tokenRuns toks False s"
  using matchLoop_tokenRuns[OF assms(1) refl assms(2), of 0]
  by (simp add: String_match_global_def prevAt_def isWordAt_def)

lemma controlFlow_eq: "controlFlow a = controlFlow b \<longleftrightarrow> a = b"
  by (simp add: controlFlow_def)

lemma tokensOK_js: "tokensOK (set ''&|?'') [''if'', ''else'', ''for'', ''while'', ''do'', ''switch'', ''case'', ''catch'', ''&&'', ''||'', ''?'']"
  by code_simp

lemma tokensOK_py: "tokensOK (set ''&|?'') [''if'', ''elif'', ''else'', ''for'', ''while'', ''try'', ''except'', ''and'', ''or'']"
  by code_simp

lemma tokensOK_go: "tokensOK (set ''&|?'') [''if'', ''else'', ''for'', ''switch'', ''case'', ''select'']"
  by code_simp

lemma tokensOK_rb: "tokensOK (set ''&|?'') [''if'', ''elsif'', ''else'', ''unless'', ''case'', ''when'', ''while'', ''until'', ''for'', ''rescue'']"
  by code_simp

lemma patternOf_tokens:
  assumes "patternOf lang = controlFlow toks"
  shows "toks = [''if'', ''else'', ''for'', ''while'', ''do'', ''switch'', ''case'', ''catch'', ''&&'', ''||'', ''?''] \<or> toks = [''if'', ''elif'', ''else'', ''for'', ''while'', ''try'', ''except'', ''and'', ''or''] \<or> toks = [''if'', ''else'', ''for'', ''switch'', ''case'', ''select''] \<or> toks = [''if'', ''elsif'', ''else'', ''unless'', ''case'', ''when'', ''while'', ''until'', ''for'', ''rescue'']"
proof (cases "map_of CONTROL_FLOW_PATTERNS lang")
  case None
  then show ?thesis using assms by (simp add: patternOf_def controlFlow_eq)
next
  case (Some r)
  then have "(lang, r) \<in> set CONTROL_FLOW_PATTERNS" by (rule map_of_SomeD)
  then have "r = controlFlow [''if'', ''else'', ''for'', ''while'', ''do'', ''switch'', ''case'', ''catch'', ''&&'', ''||'', ''?''] \<or> r = controlFlow [''if'', ''elif'', ''else'', ''for'', ''while'', ''try'', ''except'', ''and'', ''or''] \<or> r = controlFlow [''if'', ''else'', ''for'', ''switch'', ''case'', ''select''] \<or> r = controlFlow [''if'', ''elsif'', ''else'', ''unless'', ''case'', ''when'', ''while'', ''until'', ''for'', ''rescue'']"
    by (auto simp: CONTROL_FLOW_PATTERNS_def)
  moreover have "r = controlFlow toks" using assms Some by (simp add: patternOf_def)
  ultimately show ?thesis by (simp only: controlFlow_eq)
qed

lemma patternOf_tokensOK:
  assumes "patternOf lang = controlFlow toks"
  shows "tokensOK (set ''&|?'') toks"
  using patternOf_tokens[OF assms] tokensOK_js tokensOK_py tokensOK_go tokensOK_rb
  by (elim disjE) (simp_all only:)

subsection \<open>Calls of the two entry points\<close>

lemma analyzeRisk_st_eq:
  "analyzeRisk_st glob fs opts DEFAULT_RISK_PATTERNS = (analyzeRisk glob fs opts, DEFAULT_RISK_PATTERNS)"
  by (simp add: analyzeRisk_st_def analyzeRisk_def split: sum.splits)

lemma snd_analyzeRisk_st: "snd (analyzeRisk_st glob fs opts table) = table"
  by (simp add: analyzeRisk_st_def split: sum.splits)

lemma invoke_riskTable: "riskTable (snd (invoke glob i w)) = riskTable w"
  by (cases i) (auto simp: analyzeRisk_st_def split: sum.splits prod.splits)

lemma invokeAll_riskTable: "riskTable (invokeAll glob history w) = riskTable w"
  unfolding invokeAll_def by (induction history arbitrary: w) (simp_all add: invoke_riskTable)

lemma fst_invoke_cong:
  assumes "riskTable w = riskTable w'"
  shows "fst (invoke glob i w) = fst (invoke glob i w')"
proof (cases i)
  case (RunRisk fs opts)
  then show ?thesis using assms by (simp split: prod.splits)
next
  case (RunComplexity fs diff opts)
  obtain F U where "\<And>st. analyzeComplexity glob st fs diff opts = (F, resetOn U st)"
    using analyzeComplexity_state by blast
  then show ?thesis using RunComplexity by simp
qed

lemma invoke_twice: "invoke glob i (snd (invoke glob i w)) = invoke glob i w"
proof (cases i)
  case (RunRisk fs opts)
  obtain r where "analyzeRisk_st glob fs opts (riskTable w) = (r, riskTable w)"
    using snd_analyzeRisk_st[of glob fs opts "riskTable w"]
    by (cases "analyzeRisk_st glob fs opts (riskTable w)") simp
  then show ?thesis using RunRisk by simp
next
  case (RunComplexity fs diff opts)
  obtain F U where "\<And>st. analyzeComplexity glob st fs diff opts = (F, resetOn U st)"
    using analyzeComplexity_state by blast
  then show ?thesis using RunComplexity by (simp add: resetOn_resetOn)
qed

section \<open>Claims about the analysis aggregator\<close>

text \<open>
  C8.  The run of \<open>analyzeComplexity\<close> on two files, of which the second is ignored:
  the one analyzed file has 10 additions, yet the average is 5 and the largest file is the
  ignored one.
\<close>

theorem stats_count_skipped_files:
  "fst (analyzeComplexity matches (\<lambda>_. 0) exStatsFiles (JStr []) \<lparr>ignorePatterns = [JStr ''**/vendor/**'']\<rparr>) =
   Inr \<lparr>warnings = [], largeFiles = [], complexFiles = [], codeSmells = [],
        stats = \<lparr>totalAdditions = 10, totalDeletions = 0,
                 largestFile = Some \<lparr>LargestFile.filename = ''vendor/lib.js'',
                                      LargestFile.additions = 100\<rparr>,
                 averageFileSize = 5\<rparr>\<rparr>"
  apply (simp only: analyzeComplexity_def exStatsFiles_def analyzeComplexity_loop.simps
      analyzeComplexity_file_def options.simps Array_some_valid[OF vendor_valid])
  apply code_simp
  done

lemma exOperator_tokens:
  "length (fst (String_match_global (LitAlt jsTokens) exOperatorText 0)) = 11"
  by code_simp

lemma exOperator_estimate:
  "ComplexityEstimate.complexity (fst (analyzeFileComplexity (\<lambda>_. 0) ''src/a.js'' exOperatorText)) = 1"
  by code_simp

lemma exOperator_run:
  "map_sum id warnings
     (fst (analyzeComplexity matches (\<lambda>_. 0) [exFileOf ''src/a.js'']
             (JStr (exDiffOf ''src/a.js'' exOperatorText)) \<lparr>ignorePatterns = []\<rparr>)) = Inr []"
  by code_simp

lemma exScenario_tokens:
  "map (\<lambda>(i, n). take n (drop i exScenarioText))
     (fst (String_match_global (LitAlt jsTokens) exScenarioText 0)) = [''if'', ''&&'', ''||'', ''?'']"
  by code_simp

lemma exScenario_estimate:
  "ComplexityEstimate.complexity (fst (analyzeFileComplexity (\<lambda>_. 0) ''src/a.js'' exScenarioText)) = 2"
  by code_simp

lemma exIf_tokens:
  "length (fst (String_match_global (LitAlt jsTokens) exIfText 0)) = 11"
  by code_simp

lemma exIf_estimate:
  "ComplexityEstimate.complexity (fst (analyzeFileComplexity (\<lambda>_. 0) ''src/a.js'' exIfText)) = 12"
  by code_simp

lemma exIf_run:
  "fst (analyzeComplexity matches (\<lambda>_. 0) [exFileOf ''src/a.js'']
          (JStr (exDiffOf ''src/a.js'' exIfText)) \<lparr>ignorePatterns = []\<rparr>) = Inr exIfReport"
  by code_simp

text \<open>
  C1.  The patterns of \<open>CONTROL_FLOW_PATTERNS\<close> list the operators \<open>&&\<close>, \<open>||\<close> and
  \<open>?\<close> among their tokens and put the alternation between two \<open>\b\<close>, so that an
  operator is matched only between two word characters.  The added text of \<open>src/a.js\<close>
  below has 11 occurrences of \<open>&&\<close>, each between spaces: the estimate is 1 and the
  aggregator emits no warning.  In \<open>if (a && b || c) { x = d ? e : f; }\<close> the four tokens
  \<open>if\<close>, \<open>&&\<close>, \<open>||\<close> and \<open>?\<close> occur and the estimate is 2.  With 11
  occurrences of the keyword \<open>if\<close> the estimate is 12 and the report holds the
  \<open>complexity\<close> warning of severity \<open>high\<close>, as the claim says.
\<close>

theorem spaced_operators_not_counted:
  "length (fst (String_match_global (LitAlt jsTokens) exOperatorText 0)) = 11 \<and>
   ComplexityEstimate.complexity (fst (analyzeFileComplexity (\<lambda>_. 0) ''src/a.js'' exOperatorText)) = 1 \<and>
   map_sum id warnings
     (fst (analyzeComplexity matches (\<lambda>_. 0) [exFileOf ''src/a.js'']
             (JStr (exDiffOf ''src/a.js'' exOperatorText)) \<lparr>ignorePatterns = []\<rparr>)) = Inr [] \<and>
   map (\<lambda>(i, n). take n (drop i exScenarioText))
     (fst (String_match_global (LitAlt jsTokens) exScenarioText 0)) = [''if'', ''&&'', ''||'', ''?''] \<and>
   ComplexityEstimate.complexity (fst (analyzeFileComplexity (\<lambda>_. 0) ''src/a.js'' exScenarioText)) = 2 \<and>
   length (fst (String_match_global (LitAlt jsTokens) exIfText 0)) = 11 \<and>
   ComplexityEstimate.complexity (fst (analyzeFileComplexity (\<lambda>_. 0) ''src/a.js'' exIfText)) = 12 \<and>
   fst (analyzeComplexity matches (\<lambda>_. 0) [exFileOf ''src/a.js'']
          (JStr (exDiffOf ''src/a.js'' exIfText)) \<lparr>ignorePatterns = []\<rparr>) = Inr exIfReport"
  by (intro conjI exOperator_tokens exOperator_estimate exOperator_run exScenario_tokens
      exScenario_estimate exIf_tokens exIf_estimate exIf_run)

text \<open>
  C4.  Let some ignore pattern match a file name.  Whenever the Risk Classifier returns a
  report, no finding in it carries that name, and the run over the input without the files
  of that name returns the same report, so that they contribute to none of its counters
  either; and whenever the aggregator returns a report, no warning in it carries that name.
\<close>

theorem ignored_file_in_neither_report:
  assumes "\<exists>p\<in>set ig. minimatch glob fname p = Inr True"
  shows "(\<forall>r. analyzeRisk glob fs \<lparr>ignorePatterns = ig, customPatterns = custom\<rparr> = Inr r \<longrightarrow>
            fname \<notin> filename ` set (files r) \<and>
            analyzeRisk glob (filter (\<lambda>f. filename f \<noteq> fname) fs)
              \<lparr>ignorePatterns = ig, customPatterns = custom\<rparr> = Inr r) \<and>
         (\<forall>c. fst (analyzeComplexity glob st fs diff \<lparr>ignorePatterns = ig\<rparr>) = Inr c \<longrightarrow>
            fname \<notin> Warning.filename ` set (warnings c))"
proof (intro conjI allI impI)
  fix r assume run: "analyzeRisk glob fs \<lparr>ignorePatterns = ig, customPatterns = custom\<rparr> = Inr r"
  then obtain cs where cs: "Array_map toRiskRule custom = Inr cs"
      "analyzeRisk_loop glob (DEFAULT_RISK_PATTERNS @ cs) ig emptyRiskReport fs = Inr r"
    using analyzeRisk_Inr[OF run] by auto
  have hit: "Array_some (minimatch glob fname) ig \<noteq> Inr False"
    using assms by (rule Array_some_hit)
  show "fname \<notin> filename ` set (files r)"
    using analyzeRisk_loop_filenames[OF cs(2)] hit by (auto simp: emptyRiskReport_def)
  show "analyzeRisk glob (filter (\<lambda>f. filename f \<noteq> fname) fs)
              \<lparr>ignorePatterns = ig, customPatterns = custom\<rparr> = Inr r"
    using analyzeRisk_loop_drop_ignored[OF assms cs(2)] cs(1) by (simp add: analyzeRisk_def)
next
  fix c assume run: "fst (analyzeComplexity glob st fs diff \<lparr>ignorePatterns = ig\<rparr>) = Inr c"
  then obtain c' where c': "loopReport glob ig (parseDiff diff) emptyComplexityReport fs = Inr c'"
      "c = calculateStats fs c'"
    by (auto simp: fst_analyzeComplexity split: sum.splits)
  have hit: "Array_some (minimatch glob fname) ig \<noteq> Inr False"
    using assms by (rule Array_some_hit)
  show "fname \<notin> Warning.filename ` set (warnings c)"
    using loopReport_warnings[OF c'(1)] hit c'(2) by (auto simp: emptyComplexityReport_def)
qed

lemma exIgnored_risk_run:
  "analyzeRisk matches exIgnoredFiles \<lparr>ignorePatterns = [JStr ''**/vendor/**''], customPatterns = []\<rparr>
     = Inr exIgnoredRiskReport"
proof -
  note step = analyzeRisk_file_valid[OF vendor_valid DEFAULT_valid, of matches]
  have m1: "filter (\<lambda>p. matches ''src/auth/login.js'' (patternString (pattern p))) DEFAULT_RISK_PATTERNS
            = [rule ''**/auth/**'' ''security'' ''high'' ''Authentication code'']"
    by (simp add: DEFAULT_RISK_PATTERNS_def rule_def matches_def)
  have m3: "matches ''vendor/config/settings.js'' ''**/vendor/**''"
    by (simp add: matches_def)
  have m4: "\<not> matches ''src/auth/login.js'' ''**/vendor/**''"
    by (simp add: matches_def)
  show ?thesis
    unfolding analyzeRisk_def exIgnoredFiles_def
    by (simp add: step m1 m3 m4 rule_def emptyRiskReport_def
        mkRiskFile_def getHighestSeverity_def js_gt_def severityOrder_def Set_spread_def
        countSeverity_def pushCategory_def objectPrototypeKeys_def exIgnoredRiskReport_def)
qed

lemma exIgnored_complexity_run:
  "fst (analyzeComplexity matches (\<lambda>_. 0) exIgnoredFiles (JStr [])
          \<lparr>ignorePatterns = [JStr ''**/vendor/**'']\<rparr>) = Inr exIgnoredComplexityReport"
  apply (simp only: analyzeComplexity_def exIgnoredFiles_def analyzeComplexity_loop.simps
      analyzeComplexity_file_def options.simps Array_some_valid[OF vendor_valid])
  apply code_simp
  done

theorem ignored_file_in_neither_report_witness:
  "minimatch matches ''vendor/config/settings.js'' (JStr ''**/vendor/**'') = Inr True \<and>
   analyzeRisk matches exIgnoredFiles \<lparr>ignorePatterns = [JStr ''**/vendor/**''], customPatterns = []\<rparr>
     = Inr exIgnoredRiskReport \<and>
   ''vendor/config/settings.js'' \<notin> filename ` set (files exIgnoredRiskReport) \<and>
   analyzeRisk matches (filter (\<lambda>f. filename f \<noteq> ''vendor/config/settings.js'') exIgnoredFiles)
     \<lparr>ignorePatterns = [JStr ''**/vendor/**''], customPatterns = []\<rparr> = Inr exIgnoredRiskReport \<and>
   fst (analyzeComplexity matches (\<lambda>_. 0) exIgnoredFiles (JStr [])
          \<lparr>ignorePatterns = [JStr ''**/vendor/**'']\<rparr>) = Inr exIgnoredComplexityReport \<and>
   ''vendor/config/settings.js'' \<notin> Warning.filename ` set (warnings exIgnoredComplexityReport)"
proof -
  have hit: "minimatch matches ''vendor/config/settings.js'' (JStr ''**/vendor/**'') = Inr True"
    by (simp add: minimatch_def MAX_PATTERN_LENGTH_def matches_def)
  then have ex: "\<exists>p\<in>set [JStr ''**/vendor/**'']. minimatch matches ''vendor/config/settings.js'' p = Inr True"
    by simp
  from ignored_file_in_neither_report[OF ex, of exIgnoredFiles "[]" "\<lambda>_. 0" "JStr []"]
  show ?thesis using hit exIgnored_risk_run exIgnored_complexity_run by blast
qed

text \<open>
  C9.  The Risk Classifier and the Analysis Aggregator carry nothing from one call to the
  next.  Whatever calls of the two entry points came before, on whatever inputs, a call
  returns what it returns in the state they started from; a second call on the same inputs
  returns the same report and leaves the same state; and from the state of the freshly
  loaded modules a call of the classifier returns \<open>analyzeRisk\<close> of its inputs and a call
  of the aggregator the report of \<open>analyzeComplexity\<close>, which is the same for every
  state of the regular expression objects.
\<close>

theorem reports_independent_of_earlier_runs:
  "fst (invoke glob i (invokeAll glob history w)) = fst (invoke glob i w) \<and>
   invoke glob i (snd (invoke glob i w)) = invoke glob i w \<and>
   fst (invoke glob (RunRisk fs opts) (invokeAll glob history loadedState))
     = RiskOutcome (analyzeRisk glob fs opts) \<and>
   fst (invoke glob (RunComplexity fs diff copts) (invokeAll glob history loadedState))
     = ComplexityOutcome (fst (analyzeComplexity glob st fs diff copts))"
proof -
  have a: "fst (invoke glob j (invokeAll glob history v)) = fst (invoke glob j v)" for j v
    by (rule fst_invoke_cong) (rule invokeAll_riskTable)
  have b: "fst (invoke glob (RunRisk fs opts) loadedState) = RiskOutcome (analyzeRisk glob fs opts)"
    by (simp add: loadedState_def analyzeRisk_st_eq)
  obtain F U where "\<And>st. analyzeComplexity glob st fs diff copts = (F, resetOn U st)"
    using analyzeComplexity_state by blast
  then have c: "fst (invoke glob (RunComplexity fs diff copts) loadedState)
                  = ComplexityOutcome (fst (analyzeComplexity glob st fs diff copts))"
    by simp
  show ?thesis
    using a[of i w] a[of "RunRisk fs opts" loadedState] a[of "RunComplexity fs diff copts" loadedState]
      invoke_twice[of glob i w]
    by (simp only: b c simp_thms)
qed

end
